theory Spec2Isabelle
  imports Complex_Main "HOL-Library.AList" "HOL-Library.Char_ord" "HOL-Library.List_Lexorder"
    "HOL-Library.Log_Nat"
begin

section \<open>JavaScript numbers\<close>

text \<open>
  The front end computes with JavaScript numbers, which are IEEE 754 binary64 values. A
  number is modelled as \<open>NaN\<close>, one of the two infinities, or a finite value \<open>Fin r\<close>,
  where \<open>r\<close> is the rational that the double denotes. Every operation that can round
  (reading a literal, addition, subtraction) goes through \<open>to_double\<close>, so the finite
  values that the program computes are exactly the doubles. The two zeros are one value
  \<open>Fin 0\<close>: the code below never divides, and comparison, \<open>Math.abs\<close> and \<open>toFixed\<close> do not
  tell \<open>-0\<close> from \<open>+0\<close>.
\<close>

datatype jsnum = NaN | PosInf | NegInf | Fin rat

text \<open>Rounding to the nearest integer, a tie going to the even one.\<close>

definition rne :: "rat \<Rightarrow> int" where
  "rne x =
     (let f = \<lfloor>x\<rfloor>; d = x - of_int f
      in if d < 1 / 2 then f else if 1 / 2 < d then f + 1 else if even f then f else f + 1)"

text \<open>For a positive \<open>q\<close>, the integer \<open>k\<close> with \<open>2^k \<le> q < 2^(k+1)\<close>.\<close>

definition flog2 :: "rat \<Rightarrow> int" where
  "flog2 q = (if 1 \<le> q then bitlen \<lfloor>q\<rfloor> - 1 else - bitlen (\<lceil>1 / q\<rceil> - 1))"

text \<open>
  The spacing of the doubles around a positive \<open>a\<close>: 53 significant bits, and no
  exponent below that of the subnormal numbers.
\<close>

definition exponent :: "rat \<Rightarrow> int" where
  "exponent a = max (- 1074) (flog2 a - 52)"

text \<open>The power of two with an integer exponent.\<close>

definition pow2 :: "int \<Rightarrow> rat" where
  "pow2 k = (if 0 \<le> k then of_int (2 ^ nat k) else 1 / of_int (2 ^ nat (- k)))"

definition quantum :: "rat \<Rightarrow> rat" where
  "quantum a = pow2 (exponent a)"

text \<open>
  The Number value for a rational: the nearest double of its magnitude, a tie going to
  the even significand, with the sign put back; what rounds to \<open>2^1024\<close> or beyond is
  an infinity.
\<close>

definition nearest :: "rat \<Rightarrow> rat" where
  "nearest a = of_int (rne (a / quantum a)) * quantum a"

definition to_double :: "rat \<Rightarrow> jsnum" where
  "to_double q =
     (if q = 0 then Fin 0
      else
        (let v = nearest \<bar>q\<bar>
         in if pow2 1024 \<le> v then (if q < 0 then NegInf else PosInf)
            else Fin (if q < 0 then - v else v)))"

text \<open>The finite values that are doubles; NaN and the infinities are values of every Number.\<close>

fun is_double :: "jsnum \<Rightarrow> bool" where
  "is_double (Fin r) = (to_double r = Fin r)"
| "is_double _ = True"

fun isNaN :: "jsnum \<Rightarrow> bool" where
  "isNaN NaN = True"
| "isNaN _ = False"

fun Math_abs :: "jsnum \<Rightarrow> jsnum" where
  "Math_abs NaN = NaN"
| "Math_abs PosInf = PosInf"
| "Math_abs NegInf = PosInf"
| "Math_abs (Fin r) = Fin \<bar>r\<bar>"

fun js_neg :: "jsnum \<Rightarrow> jsnum" where
  "js_neg NaN = NaN"
| "js_neg PosInf = NegInf"
| "js_neg NegInf = PosInf"
| "js_neg (Fin r) = Fin (- r)"

text \<open>Addition: the exact sum of two finite values, rounded.\<close>

fun js_add :: "jsnum \<Rightarrow> jsnum \<Rightarrow> jsnum" where
  "js_add NaN _ = NaN"
| "js_add _ NaN = NaN"
| "js_add PosInf NegInf = NaN"
| "js_add NegInf PosInf = NaN"
| "js_add PosInf _ = PosInf"
| "js_add _ PosInf = PosInf"
| "js_add NegInf _ = NegInf"
| "js_add _ NegInf = NegInf"
| "js_add (Fin a) (Fin b) = to_double (a + b)"

definition js_sub :: "jsnum \<Rightarrow> jsnum \<Rightarrow> jsnum" where
  "js_sub a b = js_add a (js_neg b)"

text \<open>\<open>js_lt a b\<close> is the JavaScript comparison \<open>a < b\<close>: false as soon as one side is NaN.\<close>

fun js_lt :: "jsnum \<Rightarrow> jsnum \<Rightarrow> bool" where
  "js_lt NaN _ = False"
| "js_lt _ NaN = False"
| "js_lt PosInf _ = False"
| "js_lt _ PosInf = True"
| "js_lt _ NegInf = False"
| "js_lt NegInf _ = True"
| "js_lt (Fin a) (Fin b) = (a < b)"

definition js_gt :: "jsnum \<Rightarrow> jsnum \<Rightarrow> bool" where
  "js_gt a b = js_lt b a"

text \<open>\<open>js_le a b\<close> is \<open>a <= b\<close>: neither side is NaN and \<open>b < a\<close> is false.\<close>

definition js_le :: "jsnum \<Rightarrow> jsnum \<Rightarrow> bool" where
  "js_le a b = (\<not> isNaN a \<and> \<not> isNaN b \<and> \<not> js_lt b a)"

subsection \<open>Reading a number from a string\<close>

text \<open>
  A string is the list of its code units, which are taken to be below 256 (the characters
  of Latin-1). In this range the white space and line terminators of ECMAScript's
  \<open>StrWhiteSpaceChar\<close> are TAB, LF, VT, FF, CR, SP and NBSP. The value of a literal is
  rounded to the nearest double, as the engines do.
\<close>

definition is_space :: "char \<Rightarrow> bool" where
  "is_space c = ((of_char c :: int) \<in> {9, 10, 11, 12, 13, 32, 160})"

definition is_digit :: "char \<Rightarrow> bool" where
  "is_digit c = (48 \<le> (of_char c :: int) \<and> (of_char c :: int) \<le> 57)"

definition digit_val :: "char \<Rightarrow> int" where
  "digit_val c = of_char c - 48"

definition digits_value :: "string \<Rightarrow> int" where
  "digits_value ds = foldl (\<lambda>n c. 10 * n + digit_val c) 0 ds"

definition trim_start :: "string \<Rightarrow> string" where
  "trim_start s = dropWhile is_space s"

definition trim :: "string \<Rightarrow> string" where
  "trim s = rev (dropWhile is_space (rev (dropWhile is_space s)))"

text \<open>\<open>ExponentPart\<close>: \<open>e\<close> or \<open>E\<close>, an optional sign, and at least one digit.\<close>

definition parse_exponent :: "string \<Rightarrow> (int \<times> string) option" where
  "parse_exponent s =
     (case s of
        [] \<Rightarrow> None
      | c # r \<Rightarrow>
          if c = CHR ''e'' \<or> c = CHR ''E'' then
            (let (neg, r1) = (case r of
                                [] \<Rightarrow> (False, r)
                              | d # r' \<Rightarrow> if d = CHR ''-'' then (True, r')
                                         else if d = CHR ''+'' then (False, r')
                                         else (False, r));
                 ds = takeWhile is_digit r1
             in if ds = [] then None
                else Some ((if neg then - digits_value ds else digits_value ds),
                           dropWhile is_digit r1))
          else None)"

definition with_exponent :: "rat \<Rightarrow> string \<Rightarrow> (jsnum \<times> string) option" where
  "with_exponent m rest =
     (case parse_exponent rest of
        Some (e, rest') \<Rightarrow> Some (to_double (m * 10 powi e), rest')
      | None \<Rightarrow> Some (to_double m, rest))"

text \<open>The value of the digits \<open>ip\<close> before and \<open>fp\<close> after the decimal point.\<close>

definition mantissa :: "string \<Rightarrow> string \<Rightarrow> rat" where
  "mantissa ip fp = of_int (digits_value ip) + of_int (digits_value fp) / 10 ^ length fp"

text \<open>
  The longest prefix that is a \<open>StrUnsignedDecimalLiteral\<close> (\<open>Infinity\<close>, digits with an
  optional fraction and exponent, or a fraction that starts with the dot), with its value
  and the rest of the string.
\<close>

definition parse_unsigned :: "string \<Rightarrow> (jsnum \<times> string) option" where
  "parse_unsigned s =
     (if take 8 s = ''Infinity'' then Some (PosInf, drop 8 s)
      else
        (let ip = takeWhile is_digit s; r1 = dropWhile is_digit s
         in case r1 of
              [] \<Rightarrow> if ip = [] then None else with_exponent (mantissa ip []) r1
            | c # r2 \<Rightarrow>
                if c = CHR ''.'' then
                  (let fp = takeWhile is_digit r2; r3 = dropWhile is_digit r2
                   in if ip = [] \<and> fp = [] then None else with_exponent (mantissa ip fp) r3)
                else if ip = [] then None
                else with_exponent (mantissa ip []) r1))"

text \<open>\<open>StrDecimalLiteral\<close>: an optional sign before the unsigned literal.\<close>

definition parse_decimal :: "string \<Rightarrow> (jsnum \<times> string) option" where
  "parse_decimal s =
     (case s of
        [] \<Rightarrow> None
      | c # r \<Rightarrow>
          if c = CHR ''-'' then map_option (\<lambda>(v, rest). (js_neg v, rest)) (parse_unsigned r)
          else if c = CHR ''+'' then parse_unsigned r
          else parse_unsigned s)"

text \<open>\<open>parseFloat\<close>: leading white space is dropped, anything after the literal is ignored.\<close>

definition parseFloat :: "string \<Rightarrow> jsnum" where
  "parseFloat s = (case parse_decimal (trim_start s) of None \<Rightarrow> NaN | Some (v, _) \<Rightarrow> v)"

text \<open>Binary, octal and hexadecimal integer literals (\<open>0b\<close>, \<open>0o\<close>, \<open>0x\<close>), unsigned.\<close>

definition radix_digit :: "char \<Rightarrow> int option" where
  "radix_digit c =
     (let n = (of_char c :: int)
      in if 48 \<le> n \<and> n \<le> 57 then Some (n - 48)
         else if 97 \<le> n \<and> n \<le> 102 then Some (n - 87)
         else if 65 \<le> n \<and> n \<le> 70 then Some (n - 55)
         else None)"

definition radix_value :: "int \<Rightarrow> string \<Rightarrow> int option" where
  "radix_value b ds =
     (if ds \<noteq> [] \<and> list_all (\<lambda>c. case radix_digit c of None \<Rightarrow> False | Some d \<Rightarrow> d < b) ds
      then Some (foldl (\<lambda>n c. b * n + (case radix_digit c of None \<Rightarrow> 0 | Some d \<Rightarrow> d)) 0 ds)
      else None)"

definition parse_non_decimal :: "string \<Rightarrow> int option" where
  "parse_non_decimal s =
     (case s of
        z # p # ds \<Rightarrow>
          if z \<noteq> CHR ''0'' then None
          else if p = CHR ''x'' \<or> p = CHR ''X'' then radix_value 16 ds
          else if p = CHR ''o'' \<or> p = CHR ''O'' then radix_value 8 ds
          else if p = CHR ''b'' \<or> p = CHR ''B'' then radix_value 2 ds
          else None
      | _ \<Rightarrow> None)"

text \<open>
  \<open>Number(s)\<close> on a string: white space is trimmed on both sides, the empty string is 0,
  and the whole of what remains must be one numeric literal.
\<close>

definition Number :: "string \<Rightarrow> jsnum" where
  "Number s =
     (let t = trim s
      in if t = [] then Fin 0
         else case parse_non_decimal t of
                Some n \<Rightarrow> to_double (of_int n)
              | None \<Rightarrow>
                  (case parse_decimal t of
                     Some (v, rest) \<Rightarrow> if rest = [] then v else NaN
                   | None \<Rightarrow> NaN))"

text \<open>\<open>s.replace(/,/g, '.')\<close>\<close>

definition replace_commas :: "string \<Rightarrow> string" where
  "replace_commas s = map (\<lambda>c. if c = CHR '','' then CHR ''.'' else c) s"

subsection \<open>Writing a number with two decimals\<close>

text \<open>The decimal digits of a natural number given as an integer.\<close>

definition digit_char :: "int \<Rightarrow> char" where
  "digit_char d = ''0123456789'' ! nat d"

function int_digits :: "int \<Rightarrow> string" where
  "int_digits n =
     (if n < 10 then [digit_char n] else int_digits (n div 10) @ [digit_char (n mod 10)])"
  by pat_completeness auto
termination
  by (relation "measure nat") auto

text \<open>
  \<open>Number::toString\<close> for a finite \<open>x \<ge> 10^21\<close>, which is a whole number: the fewest
  significant digits \<open>k \<le> 17\<close> such that a \<open>k\<close>-digit decimal reads back as \<open>x\<close>, the
  nearest such decimal (the even one in a tie), written as \<open>d.ddde+n\<close>.
\<close>

definition reads_back :: "rat \<Rightarrow> int \<Rightarrow> bool" where
  "reads_back x v = (to_double (of_int v) = Fin x)"

definition nearest_decimal :: "rat \<Rightarrow> nat \<Rightarrow> int option" where
  "nearest_decimal x k =
     (let X = \<lfloor>x\<rfloor>;
          p = 10 ^ (length (int_digits X) - k);
          lo = (X div p) * p;
          hi = lo + p
      in if reads_back x lo \<and> reads_back x hi then
           (if X - lo < hi - X then Some lo
            else if hi - X < X - lo then Some hi
            else if even (X div p) then Some lo else Some hi)
         else if reads_back x lo then Some lo
         else if reads_back x hi then Some hi
         else None)"

definition shortest_decimal :: "rat \<Rightarrow> int" where
  "shortest_decimal x =
     (case List.map_filter (nearest_decimal x) [1 ..< 18] of
        v # _ \<Rightarrow> v
      | [] \<Rightarrow> \<lfloor>x\<rfloor>)"

definition exponential_string :: "rat \<Rightarrow> string" where
  "exponential_string x =
     (let ds = int_digits (shortest_decimal x);
          sig = rev (dropWhile (\<lambda>c. c = CHR ''0'') (rev ds))
      in (case sig of
            [] \<Rightarrow> ''0''
          | d # more \<Rightarrow> if more = [] then [d] else d # CHR ''.'' # more)
         @ ''e+'' @ int_digits (int (length ds) - 1))"

text \<open>
  \<open>x.toFixed(2)\<close>: a value that is not finite is written by name; otherwise the sign, and
  for a magnitude below \<open>10^21\<close> the integer \<open>n\<close> nearest to a hundred times the magnitude
  (the larger one in a tie), written with the last two digits after the point.
\<close>

definition hundredths :: "rat \<Rightarrow> int" where
  "hundredths a = \<lfloor>a * 100 + 1 / 2\<rfloor>"

definition fixed2 :: "bool \<Rightarrow> int \<Rightarrow> string" where
  "fixed2 negative n =
     (if negative then ''-'' else '''')
     @ int_digits (n div 100) @ ''.''
     @ [digit_char (n mod 100 div 10), digit_char (n mod 10)]"

definition toFixed2 :: "jsnum \<Rightarrow> string" where
  "toFixed2 x =
     (case x of
        NaN \<Rightarrow> ''NaN''
      | PosInf \<Rightarrow> ''Infinity''
      | NegInf \<Rightarrow> ''-Infinity''
      | Fin r \<Rightarrow>
          if 10 ^ 21 \<le> \<bar>r\<bar> then (if r < 0 then ''-'' else '''') @ exponential_string \<bar>r\<bar>
          else fixed2 (r < 0) (hundredths \<bar>r\<bar>))"

section \<open>Accounts\<close>

datatype AccountType = ASSET | LIABILITY

datatype AccountSubtype = CHECKING | SAVINGS | CREDIT | LOAN | INVESTMENT

text \<open>
  The fields of \<open>Account\<close> that the code below reads. The balances arrive from the back
  end as decimal strings; \<open>None\<close> stands for a field that is absent from the object
  (the list end point does not fill \<open>cached_actual_balance\<close>).
\<close>

record Account =
  acc_id :: string
  acc_name :: string
  acc_type :: AccountType
  acc_subtype :: AccountSubtype
  current_balance :: "string option"
  cached_actual_balance :: "string option"

section \<open>Requests sent to the back end\<close>

text \<open>
  The payloads, with the amount as the text that \<open>toFixed(2)\<close> gives. The date of a form
  stands for the day that \<open>toISOString().split('T')[0]\<close> gives for it, the day in UTC.
\<close>

record TransactionPayload =
  p_account :: string
  p_effective_date :: string
  p_description :: string
  p_raw_amount :: string
  p_category :: "string option"

record TransferPayload =
  t_from_account :: string
  t_to_account :: string
  t_amount :: string
  t_effective_date :: string
  t_purpose_category :: string
  t_description :: string

datatype request = CreateTransaction TransactionPayload | CreateTransfer TransferPayload

text \<open>
  \<open>form.handleSubmit(onSubmit)\<close>: the resolver validates the form data against the schema
  and \<open>onSubmit\<close> runs only when validation succeeds; otherwise the errors are shown and
  nothing is sent.
\<close>

definition handleSubmit :: "('d \<Rightarrow> bool) \<Rightarrow> ('d \<Rightarrow> request list) \<Rightarrow> 'd \<Rightarrow> request list" where
  "handleSubmit schema onSubmit data = (if schema data then onSubmit data else [])"

text \<open>
  The back end lives behind the requests: whatever it does with one request, its state
  after a submission is the state reached by serving the requests that were sent.
\<close>

definition serve :: "(request \<Rightarrow> 's \<Rightarrow> 's) \<Rightarrow> request list \<Rightarrow> 's \<Rightarrow> 's" where
  "serve backend reqs s = fold backend reqs s"

section \<open>AddTransactionDialog\<close>

datatype direction = Out | In

text \<open>
  The form data. \<open>tx_effective_date\<close> is the date set in the calendar (\<open>None\<close> when no
  valid date is set); \<open>tx_category\<close> is \<open>None\<close> when the optional field is undefined.
\<close>

record TransactionFormData =
  tx_account :: string
  tx_effective_date :: "string option"
  tx_raw_amount :: string
  tx_description :: string
  tx_direction :: direction
  tx_category :: "string option"

text \<open>The refinement of \<open>raw_amount\<close> in \<open>transactionSchema\<close>.\<close>

definition raw_amount_refine :: "string \<Rightarrow> bool" where
  "raw_amount_refine val = (let num = Number val in \<not> isNaN num \<and> num \<noteq> Fin 0)"

text \<open>A string or undefined value used as a condition: truthy when present and not empty.\<close>

definition truthy :: "string option \<Rightarrow> bool" where
  "truthy v = (case v of None \<Rightarrow> False | Some s \<Rightarrow> s \<noteq> [])"

definition transactionSchema :: "TransactionFormData \<Rightarrow> bool" where
  "transactionSchema data =
     (1 \<le> length (tx_account data)
      \<and> tx_effective_date data \<noteq> None
      \<and> raw_amount_refine (tx_raw_amount data)
      \<and> 1 \<le> length (tx_description data)
      \<and> (if truthy (tx_category data) then True else False))"

text \<open>
  \<open>signedRaw\<close> as \<open>onSubmit\<close> computes it: the account is looked up to choose the branch,
  and both branches negate the magnitude for \<open>out\<close> and keep it for \<open>in\<close>.
\<close>

definition signedRaw :: "Account list \<Rightarrow> TransactionFormData \<Rightarrow> jsnum" where
  "signedRaw accounts data =
     (let selectedAccount = find (\<lambda>acc. acc_id acc = tx_account data) accounts;
          absAmount = Math_abs (parseFloat (replace_commas (tx_raw_amount data)));
          isLiability = (case selectedAccount of None \<Rightarrow> False
                         | Some acc \<Rightarrow> acc_type acc = LIABILITY)
      in if isLiability then
           (if tx_direction data = Out then js_neg absAmount else absAmount)
         else
           (if tx_direction data = Out then js_neg absAmount else absAmount))"

text \<open>
  \<open>onSubmit\<close>: the requests it sends. Building the payload calls \<open>toISOString\<close> on the
  date; without a date that call throws inside the \<open>try\<close> block and nothing is sent.
\<close>

definition onSubmit_transaction :: "Account list \<Rightarrow> TransactionFormData \<Rightarrow> request list" where
  "onSubmit_transaction accounts data =
     (case tx_effective_date data of
        None \<Rightarrow> []
      | Some day \<Rightarrow>
          [CreateTransaction
             \<lparr> p_account = tx_account data,
               p_effective_date = day,
               p_description = tx_description data,
               p_raw_amount = toFixed2 (signedRaw accounts data),
               p_category = tx_category data \<rparr>])"

definition submit_transaction :: "Account list \<Rightarrow> TransactionFormData \<Rightarrow> request list" where
  "submit_transaction accounts data =
     handleSubmit transactionSchema (onSubmit_transaction accounts) data"

section \<open>AddTransferDialog\<close>

record TransferFormData =
  tf_from_account :: string
  tf_to_account :: string
  tf_effective_date :: "string option"
  tf_amount :: string
  tf_purpose_category :: string
  tf_description :: "string option"

text \<open>The refinement of \<open>amount\<close> in \<open>transferSchema\<close>.\<close>

definition amount_refine :: "string \<Rightarrow> bool" where
  "amount_refine val = (let num = Number val in \<not> isNaN num \<and> js_gt num (Fin 0))"

definition transferSchema :: "TransferFormData \<Rightarrow> bool" where
  "transferSchema data =
     (1 \<le> length (tf_from_account data)
      \<and> 1 \<le> length (tf_to_account data)
      \<and> tf_effective_date data \<noteq> None
      \<and> amount_refine (tf_amount data)
      \<and> 1 \<le> length (tf_purpose_category data)
      \<and> tf_from_account data \<noteq> tf_to_account data)"

definition onSubmit_transfer :: "TransferFormData \<Rightarrow> request list" where
  "onSubmit_transfer data =
     (case tf_effective_date data of
        None \<Rightarrow> []
      | Some day \<Rightarrow>
          [CreateTransfer
             \<lparr> t_from_account = tf_from_account data,
               t_to_account = tf_to_account data,
               t_amount = toFixed2 (parseFloat (replace_commas (tf_amount data))),
               t_effective_date = day,
               t_purpose_category = tf_purpose_category data,
               t_description = (case tf_description data of None \<Rightarrow> [] | Some d \<Rightarrow> d) \<rparr>])"

definition submit_transfer :: "TransferFormData \<Rightarrow> request list" where
  "submit_transfer data = handleSubmit transferSchema onSubmit_transfer data"

section \<open>AccountFilters\<close>

text \<open>
  The filter state is an object of three strings; \<open>updateFilter\<close> takes the key of the
  field to set and the new value as a string.
\<close>

record AccountFilters =
  f_search :: string
  f_type :: string
  f_subtype :: string

datatype filter_key = K_search | K_type | K_subtype

text \<open>The value and the label of each option.\<close>

definition getAvailableSubtypesForType :: "string \<Rightarrow> (string \<times> string) list" where
  "getAvailableSubtypesForType type =
     (if type = ''ASSET'' then
        [(''CHECKING'', ''Checking''), (''SAVINGS'', ''Savings''), (''INVESTMENT'', ''Investment'')]
      else if type = ''LIABILITY'' then
        [(''CREDIT'', ''Credit''), (''LOAN'', ''Loan'')]
      else
        [(''CHECKING'', ''Checking''), (''SAVINGS'', ''Savings''), (''INVESTMENT'', ''Investment''),
         (''CREDIT'', ''Credit''), (''LOAN'', ''Loan'')])"

definition set_field :: "AccountFilters \<Rightarrow> filter_key \<Rightarrow> string \<Rightarrow> AccountFilters" where
  "set_field filters key v =
     (case key of
        K_search \<Rightarrow> filters\<lparr>f_search := v\<rparr>
      | K_type \<Rightarrow> filters\<lparr>f_type := v\<rparr>
      | K_subtype \<Rightarrow> filters\<lparr>f_subtype := v\<rparr>)"

text \<open>
  \<open>updateFilter\<close> hands the new filters to \<open>onFiltersChange\<close>, which stores them: the
  result is the next filter state.
\<close>

definition updateFilter :: "AccountFilters \<Rightarrow> filter_key \<Rightarrow> string \<Rightarrow> AccountFilters" where
  "updateFilter filters key v =
     (let newFilters = set_field filters key v
      in if key = K_type then
           (let availableSubtypes = getAvailableSubtypesForType v;
                currentSubtype = f_subtype filters
            in if currentSubtype \<noteq> ''all''
                  \<and> \<not> list_ex (\<lambda>st. fst st = currentSubtype) availableSubtypes
               then newFilters\<lparr>f_subtype := ''all''\<rparr>
               else newFilters)
         else newFilters)"

definition default_filters :: AccountFilters where
  "default_filters = \<lparr> f_search = [], f_type = ''all'', f_subtype = ''all'' \<rparr>"

definition updateFilters :: "AccountFilters \<Rightarrow> (filter_key \<times> string) list \<Rightarrow> AccountFilters" where
  "updateFilters filters ops = foldl (\<lambda>f (key, v). updateFilter f key v) filters ops"

text \<open>
  The values the component's controls pass to \<open>updateFilter\<close> in a given state: the subtype
  select lists \<open>all\<close> and \<open>getAvailableSubtypes()\<close>, the subtypes of the current type; the
  search box and the type select are not restricted here.
\<close>

definition offered :: "AccountFilters \<Rightarrow> filter_key \<Rightarrow> string \<Rightarrow> bool" where
  "offered filters key v =
     (case key of
        K_subtype \<Rightarrow>
          v = ''all'' \<or> list_ex (\<lambda>st. fst st = v) (getAvailableSubtypesForType (f_type filters))
      | _ \<Rightarrow> True)"

fun all_offered :: "AccountFilters \<Rightarrow> (filter_key \<times> string) list \<Rightarrow> bool" where
  "all_offered filters [] = True"
| "all_offered filters ((key, v) # ops) =
     (offered filters key v \<and> all_offered (updateFilter filters key v) ops)"

text \<open>The invariant between type and subtype.\<close>

definition subtype_allowed :: "AccountFilters \<Rightarrow> bool" where
  "subtype_allowed f =
     ((f_type f = ''ASSET'' \<longrightarrow>
         f_subtype f \<in> {''all'', ''CHECKING'', ''SAVINGS'', ''INVESTMENT''})
      \<and> (f_type f = ''LIABILITY'' \<longrightarrow> f_subtype f \<in> {''all'', ''CREDIT'', ''LOAN''}))"

section \<open>Categories\<close>

datatype CategoryType = INCOME | EXPENSE | TRANSFER

record CategoryGroup =
  grp_id :: string
  grp_name :: string
  grp_type :: CategoryType

text \<open>The fields of \<open>Category\<close> that the editors read; an optional field is \<open>None\<close> when absent.\<close>

record Category =
  cat_id :: string
  cat_name :: string
  cat_group :: "CategoryGroup option"
  cat_group_name :: "string option"
  cat_type :: CategoryType

text \<open>A value that may be \<open>undefined\<close> or \<open>null\<close>.\<close>

datatype 'a nullable = Undefined | Null | Val 'a

definition optional :: "'a option \<Rightarrow> 'a nullable" where
  "optional v = (case v of None \<Rightarrow> Undefined | Some x \<Rightarrow> Val x)"

subsection \<open>The current category of BulkCategoryEditor\<close>

record CurrentCategory =
  cc_name :: string
  cc_isUncategorized :: bool

definition getCurrentCategory ::
  "Category list \<Rightarrow> string \<Rightarrow> string nullable \<Rightarrow> CurrentCategory" where
  "getCurrentCategory categories placeholder selectedCategoryId =
     (case selectedCategoryId of
        Null \<Rightarrow> \<lparr> cc_name = ''Uncategorized'', cc_isUncategorized = True \<rparr>
      | Undefined \<Rightarrow> \<lparr> cc_name = placeholder, cc_isUncategorized = False \<rparr>
      | Val i \<Rightarrow>
          (let category = find (\<lambda>c. cat_id c = i) categories
           in \<lparr> cc_name = (case category of
                              None \<Rightarrow> ''Unknown Category''
                            | Some c \<Rightarrow> if cat_name c \<noteq> [] then cat_name c
                                        else ''Unknown Category''),
                cc_isUncategorized = False \<rparr>))"

subsection \<open>The current category of InlineCategoryEditor\<close>

datatype effective_kind = direct | uncategorized

record EffectiveCategory =
  ec_type :: effective_kind
  ec_category_id :: "string nullable"
  ec_category_name :: "string option"
  ec_category_type :: "string option"

record LedgerEntry =
  le_id :: string
  le_category :: "string option"
  le_category_name :: "string option"
  le_category_type :: "string option"
  le_effective_category :: "EffectiveCategory option"

record CurrentCategoryInfo =
  ci_name :: string
  ci_type :: "string nullable"
  ci_isUncategorized :: bool
  ci_categoryId :: "string nullable"

definition getCurrentCategoryInfo :: "LedgerEntry \<Rightarrow> CurrentCategoryInfo" where
  "getCurrentCategoryInfo entry =
     (case le_effective_category entry of
        Some ec \<Rightarrow>
          (case ec_type ec of
             direct \<Rightarrow>
               \<lparr> ci_name = (if truthy (ec_category_name ec) then the (ec_category_name ec)
                             else ''Unknown''),
                 ci_type = optional (ec_category_type ec),
                 ci_isUncategorized = False,
                 ci_categoryId = ec_category_id ec \<rparr>
           | uncategorized \<Rightarrow>
               \<lparr> ci_name = ''Uncategorized'', ci_type = Null,
                 ci_isUncategorized = True, ci_categoryId = Null \<rparr>)
      | None \<Rightarrow>
          if truthy (le_category_name entry) then
            \<lparr> ci_name = the (le_category_name entry),
              ci_type = optional (le_category_type entry),
              ci_isUncategorized = False,
              ci_categoryId = optional (le_category entry) \<rparr>
          else
            \<lparr> ci_name = ''Uncategorized'', ci_type = Null,
              ci_isUncategorized = True, ci_categoryId = Null \<rparr>)"

subsection \<open>Grouping the categories for the selection list\<close>

text \<open>
  \<open>GroupedCategory\<close>: the category with its search text added.
\<close>

record GroupedCategory =
  gc_category :: Category
  gc_searchText :: string

record GroupSection =
  gs_name :: string
  gs_categories :: "GroupedCategory list"

record TypeSection =
  ts_type :: CategoryType
  ts_displayName :: string
  ts_groups :: "GroupSection list"

datatype js_error = TypeError

text \<open>
  \<open>toLowerCase\<close>: the upper case letters below 256 are \<open>A\<close> to \<open>Z\<close> and the accented
  letters from \<open>0xC0\<close> to \<open>0xDE\<close> without the multiplication sign \<open>0xD7\<close>; each goes
  to the letter 32 places further, and every other character is left as it is.
\<close>

definition upper_case :: string where
  "upper_case =
     ''ABCDEFGHIJKLMNOPQRSTUVWXYZ''
     @ [CHR 0xC0, CHR 0xC1, CHR 0xC2, CHR 0xC3, CHR 0xC4, CHR 0xC5, CHR 0xC6, CHR 0xC7,
        CHR 0xC8, CHR 0xC9, CHR 0xCA, CHR 0xCB, CHR 0xCC, CHR 0xCD, CHR 0xCE, CHR 0xCF,
        CHR 0xD0, CHR 0xD1, CHR 0xD2, CHR 0xD3, CHR 0xD4, CHR 0xD5, CHR 0xD6, CHR 0xD8,
        CHR 0xD9, CHR 0xDA, CHR 0xDB, CHR 0xDC, CHR 0xDD, CHR 0xDE]"

definition lower_case :: string where
  "lower_case =
     ''abcdefghijklmnopqrstuvwxyz''
     @ [CHR 0xE0, CHR 0xE1, CHR 0xE2, CHR 0xE3, CHR 0xE4, CHR 0xE5, CHR 0xE6, CHR 0xE7,
        CHR 0xE8, CHR 0xE9, CHR 0xEA, CHR 0xEB, CHR 0xEC, CHR 0xED, CHR 0xEE, CHR 0xEF,
        CHR 0xF0, CHR 0xF1, CHR 0xF2, CHR 0xF3, CHR 0xF4, CHR 0xF5, CHR 0xF6, CHR 0xF8,
        CHR 0xF9, CHR 0xFA, CHR 0xFB, CHR 0xFC, CHR 0xFD, CHR 0xFE]"

definition toLowerCase :: "string \<Rightarrow> string" where
  "toLowerCase s =
     map (\<lambda>c. case map_of (zip upper_case lower_case) c of Some l \<Rightarrow> l | None \<Rightarrow> c) s"

text \<open>
  A plain object used as a dictionary is the list of its own properties in insertion
  order. Reading \<open>obj[key]\<close> also finds what the object inherits from
  \<open>Object.prototype\<close>: for these keys the value read from an object literal that has no
  such own property is a function (or the prototype itself), which is truthy and has no
  \<open>push\<close>.
\<close>

definition Object_prototype_keys :: "string list" where
  "Object_prototype_keys =
     [''constructor'', ''__defineGetter__'', ''__defineSetter__'', ''hasOwnProperty'',
      ''__lookupGetter__'', ''__lookupSetter__'', ''isPrototypeOf'', ''propertyIsEnumerable'',
      ''toString'', ''valueOf'', ''__proto__'', ''toLocaleString'']"

text \<open>
  The body of the \<open>forEach\<close> for one group object:
  \<open>if (!obj[groupName]) obj[groupName] = []\<close> followed by \<open>obj[groupName].push(x)\<close>.
  An own array is extended in place; a missing key is added at the end; an inherited
  key is neither, and the call of \<open>push\<close> on it throws.
\<close>

definition push_into ::
  "string \<Rightarrow> 'v \<Rightarrow> (string \<times> 'v list) list \<Rightarrow> js_error + (string \<times> 'v list) list" where
  "push_into groupName x obj =
     (case map_of obj groupName of
        Some xs \<Rightarrow> Inr (AList.update groupName (xs @ [x]) obj)
      | None \<Rightarrow>
          if groupName \<in> set Object_prototype_keys then Inl TypeError
          else Inr (obj @ [(groupName, [x])]))"

text \<open>
  \<open>categories.forEach\<close>: the record \<open>categoryTypes\<close> holds one group object for each of
  the three types; the type of a category is one of the three, so neither the default
  \<open>'EXPENSE'\<close> nor the creation of a further type object is ever taken. The function that
  names the group of a category is the one line in which the two editors differ.
\<close>

fun organize ::
  "(Category \<Rightarrow> string) \<Rightarrow> Category list
     \<Rightarrow> (CategoryType \<Rightarrow> (string \<times> GroupedCategory list) list)
     \<Rightarrow> js_error + (CategoryType \<Rightarrow> (string \<times> GroupedCategory list) list)" where
  "organize groupNameOf [] categoryTypes = Inr categoryTypes"
| "organize groupNameOf (category # rest) categoryTypes =
     (let categoryType = cat_type category;
          groupName = groupNameOf category
      in case push_into groupName
                \<lparr> gc_category = category,
                  gc_searchText = toLowerCase (cat_name category @ '' '' @ groupName) \<rparr>
                (categoryTypes categoryType) of
           Inl e \<Rightarrow> Inl e
         | Inr obj \<Rightarrow> organize groupNameOf rest (categoryTypes(categoryType := obj)))"

text \<open>
  \<open>Object.entries\<close>: the keys that are array indices (canonical decimal numerals below
  \<open>2^32 - 1 = 4294967295\<close>) come first in ascending numeric order, the other keys follow
  in insertion order. Numerals of the same length compare as numbers when they are
  compared as strings.
\<close>

definition is_array_index :: "string \<Rightarrow> bool" where
  "is_array_index k =
     (k \<noteq> [] \<and> list_all is_digit k \<and> (k = ''0'' \<or> hd k \<noteq> CHR ''0'')
      \<and> (length k < 10 \<or> (length k = 10 \<and> k < ''4294967295'')))"

definition Object_entries :: "(string \<times> 'v) list \<Rightarrow> (string \<times> 'v) list" where
  "Object_entries obj =
     sort_key (\<lambda>kv. digits_value (fst kv)) (filter (\<lambda>kv. is_array_index (fst kv)) obj)
     @ filter (\<lambda>kv. \<not> is_array_index (fst kv)) obj"

text \<open>
  \<open>Array.prototype.sort\<close> with a comparison function: a stable sort, written as the
  insertion of each element before the first one that it does not compare greater
  than. The comparison function returns a negative number, zero or a positive number.
\<close>

fun place_before :: "('a \<Rightarrow> 'a \<Rightarrow> int) \<Rightarrow> 'a \<Rightarrow> 'a list \<Rightarrow> 'a list" where
  "place_before cmp x [] = [x]"
| "place_before cmp x (y # ys) =
     (if cmp x y \<le> 0 then x # y # ys else y # place_before cmp x ys)"

definition Array_sort :: "('a \<Rightarrow> 'a \<Rightarrow> int) \<Rightarrow> 'a list \<Rightarrow> 'a list" where
  "Array_sort cmp xs = foldr (place_before cmp) xs []"

definition typeOrder :: "(CategoryType \<times> string) list" where
  "typeOrder = [(INCOME, ''Income''), (EXPENSE, ''Expense''), (TRANSFER, ''Transfer'')]"

text \<open>
  One round of \<open>typeOrder.forEach\<close>: what is pushed onto \<open>result\<close> for one type.
  \<open>localeCompare\<close> is the string comparison of the run-time's locale.
\<close>

definition type_section ::
  "(string \<Rightarrow> string \<Rightarrow> int) \<Rightarrow> (CategoryType \<Rightarrow> (string \<times> GroupedCategory list) list)
     \<Rightarrow> CategoryType \<times> string \<Rightarrow> TypeSection list" where
  "type_section localeCompare categoryTypes kd =
     (let typeGroups = categoryTypes (fst kd);
          sortedGroups =
            map (\<lambda>entry.
                   \<lparr> gs_name = fst entry,
                     gs_categories =
                       Array_sort (\<lambda>a b. localeCompare (cat_name (gc_category a))
                                                        (cat_name (gc_category b)))
                                  (snd entry) \<rparr>)
                (Array_sort (\<lambda>a b. localeCompare (fst a) (fst b)) (Object_entries typeGroups))
      in if length sortedGroups > 0 then
           [\<lparr> ts_type = fst kd, ts_displayName = snd kd, ts_groups = sortedGroups \<rparr>]
         else [])"

definition groupCategories ::
  "(Category \<Rightarrow> string) \<Rightarrow> (string \<Rightarrow> string \<Rightarrow> int) \<Rightarrow> Category list
     \<Rightarrow> js_error + TypeSection list" where
  "groupCategories groupNameOf localeCompare categories =
     (case organize groupNameOf categories (\<lambda>_. []) of
        Inl e \<Rightarrow> Inl e
      | Inr categoryTypes \<Rightarrow>
          Inr (concat (map (type_section localeCompare categoryTypes) typeOrder)))"

text \<open>BulkCategoryEditor: \<open>category.group_name || category.group?.name || 'Other'\<close>\<close>

definition groupName_bulk :: "Category \<Rightarrow> string" where
  "groupName_bulk category =
     (if truthy (cat_group_name category) then the (cat_group_name category)
      else if truthy (map_option grp_name (cat_group category))
           then grp_name (the (cat_group category))
      else ''Other'')"

text \<open>InlineCategoryEditor: \<open>category.group_name || 'Other'\<close>\<close>

definition groupName_inline :: "Category \<Rightarrow> string" where
  "groupName_inline category =
     (if truthy (cat_group_name category) then the (cat_group_name category)
      else ''Other'')"

definition groupedCategories_bulk ::
  "(string \<Rightarrow> string \<Rightarrow> int) \<Rightarrow> Category list \<Rightarrow> js_error + TypeSection list" where
  "groupedCategories_bulk = groupCategories groupName_bulk"

definition groupedCategories_inline ::
  "(string \<Rightarrow> string \<Rightarrow> int) \<Rightarrow> Category list \<Rightarrow> js_error + TypeSection list" where
  "groupedCategories_inline = groupCategories groupName_inline"

text \<open>
  A comparison function is consistent when it orders any two strings one way or the
  other and is transitive; \<open>localeCompare\<close> is. A list is in the order of the comparison
  when no element compares greater than a later one.
\<close>

definition consistent :: "(string \<Rightarrow> string \<Rightarrow> int) \<Rightarrow> bool" where
  "consistent cmp =
     ((\<forall>a b. cmp a b \<le> 0 \<or> cmp b a \<le> 0)
      \<and> (\<forall>a b c. cmp a b \<le> 0 \<longrightarrow> cmp b c \<le> 0 \<longrightarrow> cmp a c \<le> 0))"

definition in_order :: "(string \<Rightarrow> string \<Rightarrow> int) \<Rightarrow> string list \<Rightarrow> bool" where
  "in_order cmp names = sorted_wrt (\<lambda>a b. cmp a b \<le> 0) names"

text \<open>The comparison of strings by their bytes, as an example of a comparison function.\<close>

definition byte_compare :: "string \<Rightarrow> string \<Rightarrow> int" where
  "byte_compare a b = (if a < b then - 1 else if a = b then 0 else 1)"

section \<open>The account summary\<close>

record TypeTotal =
  tt_count :: nat
  tt_total :: jsnum

record AccountSummary =
  as_assets :: TypeTotal
  as_liabilities :: TypeTotal
  as_netWorth :: jsnum

text \<open>
  \<open>parseFloat(acc.current_balance || acc.cached_actual_balance || "0")\<close>: the balance that
  the summary reads for an account.
\<close>

definition balance_of :: "Account \<Rightarrow> jsnum" where
  "balance_of acc =
     parseFloat (if truthy (current_balance acc) then the (current_balance acc)
                 else if truthy (cached_actual_balance acc) then the (cached_actual_balance acc)
                 else ''0'')"

definition getAccountSummary :: "Account list \<Rightarrow> AccountSummary" where
  "getAccountSummary accounts =
     (let assets = filter (\<lambda>acc. acc_type acc = ASSET) accounts;
          liabilities = filter (\<lambda>acc. acc_type acc = LIABILITY) accounts;
          assetsTotal = foldl (\<lambda>sum acc. js_add sum (balance_of acc)) (Fin 0) assets;
          liabilitiesTotal =
            foldl (\<lambda>sum acc. js_add sum (Math_abs (balance_of acc))) (Fin 0) liabilities;
          netWorth = js_sub assetsTotal liabilitiesTotal
      in \<lparr> as_assets = \<lparr> tt_count = length assets, tt_total = assetsTotal \<rparr>,
           as_liabilities = \<lparr> tt_count = length liabilities, tt_total = liabilitiesTotal \<rparr>,
           as_netWorth = netWorth \<rparr>)"

section \<open>The API client\<close>

text \<open>
  What \<open>authenticatedFetch\<close> can come back with: a response whose status is ok, with its
  body; a response that is not ok, with its status and the \<open>detail\<close> and \<open>error\<close> fields
  of its body (absent when the body is not JSON); or a failure of the fetch itself.
\<close>

datatype 'r fetch_result =
    Response_ok 'r
  | Response_not_ok nat "string option" "string option"
  | Fetch_failed

record APIError =
  err_status :: nat
  err_message :: string

text \<open>
  The common body of the client functions: the body of an ok response is returned as it
  is; a response that is not ok throws an \<open>APIError\<close> with
  \<open>errorData.detail || errorData.error || fallback\<close>; anything else that is thrown becomes
  \<open>APIError(0, 'Network error occurred')\<close>.
\<close>

definition client_result :: "string \<Rightarrow> 'r fetch_result \<Rightarrow> APIError + 'r" where
  "client_result fallback res =
     (case res of
        Response_ok body \<Rightarrow> Inr body
      | Response_not_ok status detail error \<Rightarrow>
          Inl \<lparr> err_status = status,
                err_message = (if truthy detail then the detail
                               else if truthy error then the error
                               else fallback) \<rparr>
      | Fetch_failed \<Rightarrow> Inl \<lparr> err_status = 0, err_message = ''Network error occurred'' \<rparr>)"

datatype reconcile_action = mark_cleared | mark_uncleared

definition bulkReconcileTransactions ::
  "(string list \<Rightarrow> reconcile_action \<Rightarrow> 'r fetch_result) \<Rightarrow> string list \<Rightarrow> reconcile_action
     \<Rightarrow> APIError + 'r" where
  "bulkReconcileTransactions authenticatedFetch entryIds action =
     client_result ''Failed to bulk reconcile transactions'' (authenticatedFetch entryIds action)"

definition refreshAccountBalance ::
  "(string \<Rightarrow> 'r fetch_result) \<Rightarrow> string \<Rightarrow> APIError + 'r" where
  "refreshAccountBalance authenticatedFetch id' =
     client_result ''Failed to refresh account balance'' (authenticatedFetch id')"

section \<open>The ledger behind the API\<close>

text \<open>
  The end points \<open>bulk_reconcile\<close> and \<open>refresh_balance\<close> are served by the back end, whose
  code is not part of the sources at hand. The entries and the two operations below
  follow the specification of the ledger.
\<close>

datatype reconciliation_status = matched | manually_cleared | unmatched

text \<open>
  Modelled from the spec: a ledger entry as the back end stores it, with the fields the
  two operations read. \<open>se_counterpart\<close> is the counterpart entry id of the transfer link.
\<close>

record StoredEntry =
  se_id :: string
  se_account :: string
  se_description :: string
  se_signed_amount :: rat
  se_status :: reconciliation_status
  se_counterpart :: "string option"

text \<open>
  The response of bulk reconciliation, with the fields that the return type of
  \<open>bulkReconcileTransactions\<close> declares (its free-text \<open>message\<close> apart).
\<close>

record SkippedEntry =
  sk_id :: string
  sk_reason :: string
  sk_description :: string

record BulkReconcileResponse =
  br_updated_count :: nat
  br_skipped_count :: nat
  br_total_requested :: nat
  br_transfer_entries_included :: "string list"
  br_skipped_entries :: "SkippedEntry list"
  br_action_performed :: reconcile_action

text \<open>
  Modelled from the spec: the status an action gives to an entry (\<open>manually_cleared\<close> is
  the user-initiated, reversible state; \<open>unmatched\<close> is the default).
\<close>

definition status_after :: "reconcile_action \<Rightarrow> reconciliation_status" where
  "status_after action =
     (case action of mark_cleared \<Rightarrow> manually_cleared | mark_uncleared \<Rightarrow> unmatched)"

text \<open>
  Modelled from the spec: the ids that are added because one side of a transfer pair is in
  the id list and the other side is not.
\<close>

definition counterparts_added :: "StoredEntry list \<Rightarrow> string list \<Rightarrow> string list" where
  "counterparts_added entries entryIds =
     remdups
       (filter (\<lambda>c. c \<notin> set entryIds)
          (List.map_filter se_counterpart
             (filter (\<lambda>e. se_id e \<in> set entryIds) entries)))"

text \<open>
  Modelled from the spec: \<open>bulkReconcile(entryIds, action)\<close> of the back end, missing from
  the sources. The action is applied to the listed entries and to the added counterparts;
  an entry whose status is \<open>matched\<close> is skipped and reported with the reason
  \<open>already_matched\<close>, the others get the status of the action. The result is the response
  and the entries after the operation. An id without an entry contributes nothing.
\<close>

definition bulkReconcile ::
  "StoredEntry list \<Rightarrow> string list \<Rightarrow> reconcile_action
     \<Rightarrow> BulkReconcileResponse \<times> StoredEntry list" where
  "bulkReconcile entries entryIds action =
     (let included = counterparts_added entries entryIds;
          targets = entryIds @ included;
          selected = filter (\<lambda>e. se_id e \<in> set targets) entries;
          skipped = filter (\<lambda>e. se_status e = matched) selected;
          updated = filter (\<lambda>e. se_status e \<noteq> matched) selected
      in (\<lparr> br_updated_count = length updated,
             br_skipped_count = length skipped,
             br_total_requested = length entryIds,
             br_transfer_entries_included = included,
             br_skipped_entries =
               map (\<lambda>e. \<lparr> sk_id = se_id e, sk_reason = ''already_matched'',
                            sk_description = se_description e \<rparr>) skipped,
             br_action_performed = action \<rparr>,
          map (\<lambda>e. if se_id e \<in> set targets \<and> se_status e \<noteq> matched
                    then e\<lparr>se_status := status_after action\<rparr> else e) entries))"

text \<open>
  Modelled from the spec: the state of the ledger that balance recomputation reads and
  writes, the stored balance of each account and the entries.
\<close>

record Ledger =
  lg_balances :: "string \<rightharpoonup> rat"
  lg_entries :: "StoredEntry list"

datatype ledger_error = AccountNotFound

text \<open>
  Modelled from the spec: the response of \<open>refreshBalance\<close>, the previous and the current
  balance, their difference and whether the balance was updated, as decimals.
\<close>

record RefreshBalanceResponse =
  rb_previous_balance :: rat
  rb_current_balance :: rat
  rb_difference :: rat
  rb_was_updated :: bool

text \<open>
  Modelled from the spec: \<open>recomputeBalance(accountId)\<close> (\<open>refreshBalance\<close> in the
  interface) of the back end, missing from the sources: the balance of the account is
  recomputed as the sum of the signed amounts of all its entries and stored; the response
  gives the previous and the current balance, their difference and whether the stored
  balance changed.
\<close>

definition recomputeBalance ::
  "Ledger \<Rightarrow> string \<Rightarrow> ledger_error + (RefreshBalanceResponse \<times> Ledger)" where
  "recomputeBalance ledger accountId =
     (case lg_balances ledger accountId of
        None \<Rightarrow> Inl AccountNotFound
      | Some previous \<Rightarrow>
          (let current = sum_list (map se_signed_amount
                                    (filter (\<lambda>e. se_account e = accountId) (lg_entries ledger)))
           in Inr (\<lparr> rb_previous_balance = previous,
                      rb_current_balance = current,
                      rb_difference = current - previous,
                      rb_was_updated = (current \<noteq> previous) \<rparr>,
                   ledger\<lparr>lg_balances := (lg_balances ledger)(accountId \<mapsto> current)\<rparr>)))"

section \<open>Facts about the rounding of numbers\<close>

subsection \<open>Powers of two\<close>

lemma pow2_powi: "pow2 k = 2 powi k"
  by (simp add: pow2_def power_int_def field_simps)

lemma quantum_powi: "quantum a = 2 powi (exponent a)"
  by (simp add: quantum_def pow2_powi)

lemma pow2_pos: "0 < (2::rat) powi k"
  by (simp add: zero_less_power_int)

lemma pow2_add: "(2::rat) powi (a + b) = 2 powi a * 2 powi b"
  by (simp add: power_int_add)

lemma pow2_mono: "a \<le> b \<Longrightarrow> (2::rat) powi a \<le> 2 powi b"
  by (simp add: power_int_increasing)

lemma pow2_strict_mono: "a < b \<Longrightarrow> (2::rat) powi a < 2 powi b"
  by (simp add: power_int_strict_increasing)

lemma pow2_less_iff: "(2::rat) powi a < 2 powi b \<longleftrightarrow> a < b"
proof
  assume "(2::rat) powi a < 2 powi b"
  show "a < b"
  proof (rule ccontr)
    assume "\<not> a < b"
    then have "b \<le> a" by simp
    then have "(2::rat) powi b \<le> 2 powi a" by (rule pow2_mono)
    with \<open>(2::rat) powi a < 2 powi b\<close> show False by simp
  qed
qed (rule pow2_strict_mono)

lemma pow_le_of_int: "(2::int) ^ n \<le> m \<Longrightarrow> (2::rat) ^ n \<le> of_int m"
proof -
  assume "(2::int) ^ n \<le> m"
  then have "(of_int (2 ^ n) :: rat) \<le> of_int m" by (simp only: of_int_le_iff)
  then show ?thesis by simp
qed

lemma of_int_le_pow: "m \<le> (2::int) ^ n \<Longrightarrow> (of_int m :: rat) \<le> 2 ^ n"
proof -
  assume "m \<le> (2::int) ^ n"
  then have "(of_int m :: rat) \<le> of_int (2 ^ n)" by (simp only: of_int_le_iff)
  then show ?thesis by simp
qed

subsection \<open>The binary logarithm\<close>

lemma flog2_bounds:
  assumes "0 < q"
  shows "2 powi (flog2 q) \<le> q" and "q < 2 powi (flog2 q + 1)"
proof -
  show "2 powi (flog2 q) \<le> q"
  proof (cases "1 \<le> q")
    case True
    then have pos: "0 < \<lfloor>q\<rfloor>" by linarith
    from bitlen_bounds [OF pos] have "2 ^ nat (bitlen \<lfloor>q\<rfloor> - 1) \<le> \<lfloor>q\<rfloor>" by simp
    then have "(2::rat) ^ nat (bitlen \<lfloor>q\<rfloor> - 1) \<le> of_int \<lfloor>q\<rfloor>" by (rule pow_le_of_int)
    also have "\<dots> \<le> q" by simp
    finally have "(2::rat) ^ nat (bitlen \<lfloor>q\<rfloor> - 1) \<le> q" .
    moreover from pos have "1 \<le> bitlen \<lfloor>q\<rfloor>"
      using bitlen_eq_zero_iff [of "\<lfloor>q\<rfloor>"] bitlen_nonneg [of "\<lfloor>q\<rfloor>"] by linarith
    then have "(2::rat) powi (bitlen \<lfloor>q\<rfloor> - 1) = 2 ^ nat (bitlen \<lfloor>q\<rfloor> - 1)"
      by (simp add: power_int_def)
    ultimately show ?thesis using True by (simp add: flog2_def)
  next
    case False
    with assms have r: "1 < 1 / q" by simp
    define m where "m = \<lceil>1 / q\<rceil> - 1"
    from r have pos: "0 < m" unfolding m_def by linarith
    from bitlen_bounds [OF pos] have "m < 2 ^ nat (bitlen m)" by simp
    then have "m + 1 \<le> 2 ^ nat (bitlen m)" by simp
    then have "(of_int (m + 1) :: rat) \<le> 2 ^ nat (bitlen m)" by (rule of_int_le_pow)
    moreover have "1 / q \<le> of_int (m + 1)" unfolding m_def by simp
    ultimately have "1 / q \<le> 2 ^ nat (bitlen m)" by (rule order_trans [rotated])
    with assms have "1 \<le> q * 2 ^ nat (bitlen m)" by (simp add: field_simps)
    then have "1 / 2 ^ nat (bitlen m) \<le> q" by (simp add: field_simps)
    moreover have "(2::rat) powi (- bitlen m) = 1 / 2 ^ nat (bitlen m)"
      using bitlen_nonneg [of m] by (simp add: power_int_def field_simps)
    ultimately show ?thesis using False by (simp add: flog2_def m_def)
  qed
next
  show "q < 2 powi (flog2 q + 1)"
  proof (cases "1 \<le> q")
    case True
    then have pos: "0 < \<lfloor>q\<rfloor>" by linarith
    from bitlen_bounds [OF pos] have "\<lfloor>q\<rfloor> < 2 ^ nat (bitlen \<lfloor>q\<rfloor>)" by simp
    then have "\<lfloor>q\<rfloor> + 1 \<le> 2 ^ nat (bitlen \<lfloor>q\<rfloor>)" by simp
    then have "(of_int (\<lfloor>q\<rfloor> + 1) :: rat) \<le> 2 ^ nat (bitlen \<lfloor>q\<rfloor>)" by (rule of_int_le_pow)
    moreover have "q < of_int (\<lfloor>q\<rfloor> + 1)" by linarith
    ultimately have "q < 2 ^ nat (bitlen \<lfloor>q\<rfloor>)" by (rule less_le_trans [rotated])
    moreover have "(2::rat) powi (bitlen \<lfloor>q\<rfloor>) = 2 ^ nat (bitlen \<lfloor>q\<rfloor>)"
      using bitlen_nonneg [of "\<lfloor>q\<rfloor>"] by (simp add: power_int_def)
    ultimately show ?thesis using True by (simp add: flog2_def)
  next
    case False
    with assms have r: "1 < 1 / q" by simp
    define m where "m = \<lceil>1 / q\<rceil> - 1"
    from r have pos: "0 < m" unfolding m_def by linarith
    then have b1: "1 \<le> bitlen m"
      using bitlen_eq_zero_iff [of m] bitlen_nonneg [of m] by linarith
    from bitlen_bounds [OF pos] have "2 ^ nat (bitlen m - 1) \<le> m" by simp
    then have "(2::rat) ^ nat (bitlen m - 1) \<le> of_int m" by (rule pow_le_of_int)
    moreover have "of_int m < 1 / q" unfolding m_def by linarith
    ultimately have "2 ^ nat (bitlen m - 1) < 1 / q" by (rule le_less_trans)
    with assms have "q * 2 ^ nat (bitlen m - 1) < 1" by (simp add: field_simps)
    then have "q < 1 / 2 ^ nat (bitlen m - 1)" by (simp add: field_simps)
    moreover from b1 have "(2::rat) powi (- bitlen m + 1) = 1 / 2 ^ nat (bitlen m - 1)"
      by (simp add: power_int_def field_simps nat_diff_distrib)
    ultimately show ?thesis using False by (simp add: flog2_def m_def)
  qed
qed

subsection \<open>Rounding to the nearest integer\<close>

lemma rne_cases: "rne x = \<lfloor>x\<rfloor> \<or> rne x = \<lfloor>x\<rfloor> + 1"
  by (simp add: rne_def Let_def)

lemma rne_of_int: "rne (of_int n) = n"
  by (simp add: rne_def Let_def)



lemma rne_mono:
  assumes "x \<le> y"
  shows "rne x \<le> rne y"
proof -
  from assms have fl: "\<lfloor>x\<rfloor> \<le> \<lfloor>y\<rfloor>" by (rule floor_mono)
  show ?thesis
  proof (cases "\<lfloor>x\<rfloor> = \<lfloor>y\<rfloor>")
    case True
    with assms have "x - of_int \<lfloor>x\<rfloor> \<le> y - of_int \<lfloor>y\<rfloor>" by simp
    with True show ?thesis by (auto simp add: rne_def Let_def)
  next
    case False
    with fl have "\<lfloor>x\<rfloor> + 1 \<le> \<lfloor>y\<rfloor>" by simp
    moreover have "rne x \<le> \<lfloor>x\<rfloor> + 1" using rne_cases [of x] by auto
    moreover have "\<lfloor>y\<rfloor> \<le> rne y" using rne_cases [of y] by auto
    ultimately show ?thesis by linarith
  qed
qed

lemma rne_le_of_int: "x \<le> of_int n \<Longrightarrow> rne x \<le> n"
  using rne_mono [of x "of_int n"] by (simp add: rne_of_int)

lemma of_int_le_rne: "of_int n \<le> x \<Longrightarrow> n \<le> rne x"
  using rne_mono [of "of_int n" x] by (simp add: rne_of_int)

subsection \<open>The spacing of the doubles\<close>

lemma pow2_shift: "of_int (2 ^ m) * (2::rat) powi k = 2 powi (k + int m)"
  by (simp add: power_int_add)

lemma pow2_int: "0 \<le> k \<Longrightarrow> (2::rat) powi k = of_int (2 ^ nat k)"
  by (simp add: power_int_def)

lemma quantum_pos: "0 < quantum a"
  by (simp add: quantum_powi pow2_pos)

lemma scaled_upper:
  assumes "0 < a"
  shows "a / quantum a < 2 powi 53"
proof -
  have "flog2 a + 1 \<le> exponent a + 53" by (simp add: exponent_def)
  then have "(2::rat) powi (flog2 a + 1) \<le> 2 powi (exponent a + 53)"
    by (rule pow2_mono)
  with flog2_bounds(2) [OF assms] have "a < 2 powi (exponent a + 53)"
    by (rule less_le_trans)
  then have "a < quantum a * 2 powi 53" by (simp add: quantum_powi pow2_add)
  with quantum_pos [of a] show ?thesis by (simp add: field_simps)
qed

lemma scaled_lower:
  assumes "0 < a" and "- 1074 \<le> flog2 a - 52"
  shows "2 powi 52 \<le> a / quantum a"
proof -
  from assms(2) have q: "quantum a = 2 powi (flog2 a - 52)"
    by (simp add: quantum_powi exponent_def max_def)
  have "(2::rat) powi (flog2 a) = 2 powi (flog2 a - 52 + 52)" by simp
  also have "\<dots> = quantum a * 2 powi 52" unfolding q by (rule pow2_add)
  finally have "quantum a * 2 powi 52 \<le> a" using flog2_bounds(1) [OF assms(1)] by simp
  with quantum_pos [of a] show ?thesis by (simp add: field_simps)
qed

lemma exponent_unique:
  assumes "0 < a" and "- 1074 \<le> k" and "a < 2 powi (k + 53)"
    and "k = - 1074 \<or> 2 powi (k + 52) \<le> a"
  shows "exponent a = k"
proof -
  from flog2_bounds(1) [OF assms(1)] assms(3) have "(2::rat) powi (flog2 a) < 2 powi (k + 53)"
    by (rule le_less_trans)
  then have up: "flog2 a - 52 \<le> k" by (simp add: pow2_less_iff)
  from assms(4) show ?thesis
  proof
    assume "k = - 1074"
    with up show ?thesis by (simp add: exponent_def)
  next
    assume "2 powi (k + 52) \<le> a"
    from this flog2_bounds(2) [OF assms(1)]
    have "(2::rat) powi (k + 52) < 2 powi (flog2 a + 1)"
      by (rule le_less_trans)
    then have "k \<le> flog2 a - 52" by (simp add: pow2_less_iff)
    with up assms(2) show ?thesis by (simp add: exponent_def)
  qed
qed

lemma flog2_mono:
  assumes "0 < a" and "a \<le> b"
  shows "flog2 a \<le> flog2 b"
proof -
  from assms have b: "0 < b" by simp
  from flog2_bounds(1) [OF assms(1)] assms(2) have "2 powi (flog2 a) \<le> b" by simp
  from this flog2_bounds(2) [OF b] have "(2::rat) powi (flog2 a) < 2 powi (flog2 b + 1)"
    by (rule le_less_trans)
  then show ?thesis by (simp add: pow2_less_iff)
qed

lemma exponent_mono: "0 < a \<Longrightarrow> a \<le> b \<Longrightarrow> exponent a \<le> exponent b"
  using flog2_mono [of a b] by (simp add: exponent_def)

lemma exponent_lower: "- 1074 \<le> exponent a"
  by (simp add: exponent_def)

subsection \<open>The nearest double of a magnitude\<close>

lemma nearest_zero: "nearest 0 = 0"
  using rne_of_int [of 0] by (simp add: nearest_def)

lemma nearest_nonneg:
  assumes "0 \<le> a"
  shows "0 \<le> nearest a"
proof -
  from assms quantum_pos [of a] have "of_int 0 \<le> a / quantum a" by simp
  then have "0 \<le> rne (a / quantum a)" by (rule of_int_le_rne)
  with quantum_pos [of a] show ?thesis by (simp add: nearest_def)
qed


lemma nearest_mono:
  assumes "0 < a" and "a \<le> b"
  shows "nearest a \<le> nearest b"
proof -
  from assms have b: "0 < b" by simp
  have ua: "0 < quantum a" and ub: "0 < quantum b" by (rule quantum_pos)+
  from exponent_mono [OF assms] have k: "exponent a \<le> exponent b" .
  show ?thesis
  proof (cases "exponent a = exponent b")
    case True
    then have q: "quantum b = quantum a" by (simp add: quantum_powi)
    from assms(2) ua have "a / quantum a \<le> b / quantum a" by (simp add: divide_right_mono)
    then have "rne (a / quantum a) \<le> rne (b / quantum a)" by (rule rne_mono)
    then have "(of_int (rne (a / quantum a)) :: rat) \<le> of_int (rne (b / quantum a))"
      by (simp only: of_int_le_iff)
    with ua show ?thesis by (simp only: nearest_def q mult_le_cancel_right_pos)
  next
    case False
    with k have lt: "exponent a < exponent b" by simp
    with exponent_lower [of a] have nb: "- 1074 < exponent b" by simp
    then have eb: "exponent b = flog2 b - 52" by (simp add: exponent_def max_def split: if_splits)
    with nb have "- 1074 \<le> flog2 b - 52" by simp
    from scaled_lower [OF b this] have "of_int (2 ^ 52) \<le> b / quantum b" by simp
    then have "2 ^ 52 \<le> rne (b / quantum b)" by (rule of_int_le_rne)
    then have "(of_int (2 ^ 52) :: rat) \<le> of_int (rne (b / quantum b))"
      by (simp only: of_int_le_iff)
    then have "of_int (2 ^ 52) * quantum b \<le> nearest b"
      using ub by (simp only: nearest_def mult_le_cancel_right_pos)
    moreover have "(of_int (2 ^ 52) :: rat) * quantum b = 2 powi (flog2 b)"
    proof -
      have "(2::rat) powi (flog2 b) = 2 powi (52 + (flog2 b - 52))" by simp
      also have "\<dots> = 2 powi 52 * 2 powi (flog2 b - 52)" by (rule pow2_add)
      finally show ?thesis by (simp add: quantum_powi eb)
    qed
    ultimately have low: "2 powi (flog2 b) \<le> nearest b" by simp
    define j where "j = flog2 b - exponent a"
    from lt eb have j: "0 \<le> j" by (simp add: j_def)
    have split: "(2::rat) powi (flog2 b) = of_int (2 ^ nat j) * quantum a"
    proof -
      have "(2::rat) powi (flog2 b) = 2 powi (j + exponent a)" by (simp add: j_def)
      also have "\<dots> = 2 powi j * 2 powi (exponent a)" by (rule pow2_add)
      also have "2 powi j = (of_int (2 ^ nat j) :: rat)" using j by (rule pow2_int)
      finally show ?thesis by (simp only: quantum_powi)
    qed
    have "flog2 a - 52 \<le> exponent a" by (simp add: exponent_def)
    with lt eb have "flog2 a + 1 \<le> flog2 b" by simp
    then have "(2::rat) powi (flog2 a + 1) \<le> 2 powi (flog2 b)" by (rule pow2_mono)
    with flog2_bounds(2) [OF assms(1)] have "a \<le> 2 powi (flog2 b)" by simp
    then have "a \<le> of_int (2 ^ nat j) * quantum a" by (simp only: split)
    with ua have "a / quantum a \<le> of_int (2 ^ nat j)" by (simp add: field_simps)
    then have "rne (a / quantum a) \<le> 2 ^ nat j" by (rule rne_le_of_int)
    then have "(of_int (rne (a / quantum a)) :: rat) \<le> of_int (2 ^ nat j)"
      by (simp only: of_int_le_iff)
    then have "nearest a \<le> of_int (2 ^ nat j) * quantum a"
      using ua by (simp only: nearest_def mult_le_cancel_right_pos)
    then have "nearest a \<le> 2 powi (flog2 b)" by (simp only: split)
    with low show ?thesis by simp
  qed
qed

lemma nearest_idem:
  assumes "0 < a"
  shows "nearest (nearest a) = nearest a"
proof -
  define k where "k = exponent a"
  define n where "n = rne (a / quantum a)"
  have u: "quantum a = 2 powi k" by (simp add: quantum_powi k_def)
  have upos: "0 < (2::rat) powi k" by (rule pow2_pos)
  have v: "nearest a = of_int n * 2 powi k" by (simp add: nearest_def n_def u)
  from assms quantum_pos [of a] have "of_int 0 \<le> a / quantum a" by simp
  then have n0: "0 \<le> n" unfolding n_def by (rule of_int_le_rne)
  from scaled_upper [OF assms] have "a / quantum a \<le> of_int (2 ^ 53)" by simp
  then have n53: "n \<le> 2 ^ 53" unfolding n_def by (rule rne_le_of_int)
  consider "n = 0" | "0 < n" "n < 2 ^ 53" | "n = 2 ^ 53" using n0 n53 by linarith
  then show ?thesis
  proof cases
    case 1
    then show ?thesis by (simp add: v nearest_zero)
  next
    case 2
    from 2(1) upos have vpos: "0 < of_int n * (2::rat) powi k" by simp
    from 2(2) have "(of_int n :: rat) < of_int (2 ^ 53)" by (simp only: of_int_less_iff)
    then have "(of_int n :: rat) * 2 powi k < of_int (2 ^ 53) * 2 powi k"
      using upos by (simp only: mult_less_cancel_right_pos)
    also have "(of_int (2 ^ 53) :: rat) * 2 powi k = 2 powi (k + int 53)" by (rule pow2_shift)
    finally have up: "of_int n * (2::rat) powi k < 2 powi (k + 53)" by simp
    have low: "k = - 1074 \<or> 2 powi (k + 52) \<le> of_int n * (2::rat) powi k"
    proof (cases "k = - 1074")
      case False
      then have "- 1074 \<le> flog2 a - 52" by (simp add: k_def exponent_def max_def split: if_splits)
      from scaled_lower [OF assms this] have "of_int (2 ^ 52) \<le> a / quantum a" by simp
      then have "2 ^ 52 \<le> n" unfolding n_def by (rule of_int_le_rne)
      then have "(of_int (2 ^ 52) :: rat) \<le> of_int n" by (simp only: of_int_le_iff)
      then have le: "(of_int (2 ^ 52) :: rat) * 2 powi k \<le> of_int n * 2 powi k"
        using upos by (simp only: mult_le_cancel_right_pos)
      have "(2::rat) powi (k + int 52) = of_int (2 ^ 52) * 2 powi k"
        by (rule pow2_shift [symmetric])
      also note le
      finally have "2 powi (k + 52) \<le> of_int n * (2::rat) powi k" by simp
      then show ?thesis ..
    qed simp
    have "- 1074 \<le> k" unfolding k_def by (rule exponent_lower)
    from exponent_unique [OF vpos this up low]
    have "quantum (of_int n * 2 powi k) = 2 powi k" by (simp add: quantum_powi)
    moreover have "of_int n * (2::rat) powi k / 2 powi k = of_int n" using upos by simp
    ultimately have "nearest (of_int n * 2 powi k) = of_int (rne (of_int n)) * 2 powi k"
      by (simp only: nearest_def)
    then show ?thesis by (simp only: v rne_of_int)
  next
    case 3
    have w: "of_int n * (2::rat) powi k = 2 powi (k + 53)"
    proof -
      have "(2::rat) powi (k + 53) = 2 powi k * 2 powi 53" by (rule pow2_add)
      with 3 show ?thesis by simp
    qed
    have wpos: "0 < (2::rat) powi (k + 53)" by (rule pow2_pos)
    have "- 1074 \<le> k" unfolding k_def by (rule exponent_lower)
    then have k1: "- 1074 \<le> k + 1" by simp
    have up: "(2::rat) powi (k + 53) < 2 powi (k + 1 + 53)" by (rule pow2_strict_mono) simp
    have low: "k + 1 = - 1074 \<or> (2::rat) powi (k + 1 + 52) \<le> 2 powi (k + 53)"
      by (simp add: add.commute add.left_commute)
    from exponent_unique [OF wpos k1 up low]
    have q: "quantum (2 powi (k + 53)) = 2 powi (k + 1)" by (simp add: quantum_powi)
    have "(2::rat) powi (k + 53) = 2 powi (52 + (k + 1))" by (simp add: add.commute add.left_commute)
    also have "\<dots> = 2 powi 52 * 2 powi (k + 1)" by (rule pow2_add)
    finally have s: "(2::rat) powi (k + 53) = of_int (2 ^ 52) * 2 powi (k + 1)" by simp
    have "0 < (2::rat) powi (k + 1)" by (rule pow2_pos)
    then have "of_int (2 ^ 52) * (2::rat) powi (k + 1) / 2 powi (k + 1) = of_int (2 ^ 52)"
      by simp
    then have "nearest (2 powi (k + 53)) = of_int (rne (of_int (2 ^ 52))) * 2 powi (k + 1)"
      by (simp only: nearest_def q s [symmetric])
    then have "nearest (2 powi (k + 53)) = 2 powi (k + 53)" by (simp only: rne_of_int s)
    then show ?thesis by (simp only: v w)
  qed
qed

subsection \<open>Rounding to a double\<close>

lemma to_double_zero: "to_double 0 = Fin 0"
  by (simp add: to_double_def)

lemma to_double_not_NaN: "to_double q \<noteq> NaN"
  by (simp add: to_double_def Let_def)

lemma to_double_neg: "to_double (- q) = js_neg (to_double q)"
  by (simp add: to_double_def Let_def)

lemma to_double_pos:
  assumes "0 < q"
  shows "to_double q = (if 2 powi 1024 \<le> nearest q then PosInf else Fin (nearest q))"
  using assms by (simp add: to_double_def Let_def pow2_powi)

lemma to_double_nonneg_cases:
  assumes "0 \<le> q"
  shows "to_double q = PosInf \<or> (\<exists>r. 0 \<le> r \<and> to_double q = Fin r)"
proof (cases "q = 0")
  case True
  then show ?thesis by (simp add: to_double_zero)
next
  case False
  with assms have q: "0 < q" by simp
  from nearest_nonneg [OF assms] show ?thesis by (simp add: to_double_pos [OF q])
qed

lemma to_double_pos_mono:
  assumes "0 < q" and "q \<le> r"
  shows "js_le (to_double q) (to_double r)"
proof -
  from assms have r: "0 < r" by simp
  from nearest_mono [OF assms] show ?thesis
    by (simp add: to_double_pos [OF assms(1)] to_double_pos [OF r] js_le_def)
qed

lemma js_le_neg: "js_le a b \<Longrightarrow> js_le (js_neg b) (js_neg a)"
  by (cases a; cases b) (simp_all add: js_le_def)

lemma js_le_trans: "js_le a b \<Longrightarrow> js_le b c \<Longrightarrow> js_le a c"
  by (cases a; cases b; cases c) (simp_all add: js_le_def)

lemma to_double_nonneg: "0 \<le> q \<Longrightarrow> js_le (Fin 0) (to_double q)"
  using to_double_nonneg_cases [of q] by (auto simp add: js_le_def)

lemma to_double_nonpos:
  assumes "q \<le> 0"
  shows "js_le (to_double q) (Fin 0)"
proof -
  from assms have "js_le (Fin 0) (to_double (- q))" by (intro to_double_nonneg) simp
  then have "js_le (js_neg (to_double (- q))) (js_neg (Fin 0))" by (rule js_le_neg)
  then show ?thesis by (simp add: to_double_neg) (cases "to_double q"; simp)
qed

lemma js_neg_neg: "js_neg (js_neg a) = a"
  by (cases a) simp_all

lemma to_double_mono:
  assumes "q \<le> r"
  shows "js_le (to_double q) (to_double r)"
proof -
  consider "0 < q" | "q \<le> 0" "0 \<le> r" | "r < 0" using assms by linarith
  then show ?thesis
  proof cases
    case 1
    then show ?thesis using assms by (rule to_double_pos_mono)
  next
    case 2
    from to_double_nonpos [OF 2(1)] to_double_nonneg [OF 2(2)] show ?thesis
      by (rule js_le_trans)
  next
    case 3
    then have "0 < - r" by simp
    moreover from assms have "- r \<le> - q" by simp
    ultimately have "js_le (to_double (- r)) (to_double (- q))" by (rule to_double_pos_mono)
    then have "js_le (js_neg (to_double (- q))) (js_neg (to_double (- r)))" by (rule js_le_neg)
    then show ?thesis by (simp add: to_double_neg js_neg_neg)
  qed
qed

lemma to_double_idem:
  assumes "to_double q = Fin r"
  shows "to_double r = Fin r"
proof -
  have pos: "to_double r = Fin r" if q: "0 < q" and f: "to_double q = Fin r" for q r
  proof -
    from f have lt: "\<not> 2 powi 1024 \<le> nearest q" and r: "r = nearest q"
      by (simp_all add: to_double_pos [OF q] split: if_splits)
    from q have "0 \<le> nearest q" by (intro nearest_nonneg) simp
    then show ?thesis
    proof (cases "nearest q = 0")
      case True
      then show ?thesis by (simp add: r to_double_zero)
    next
      case False
      with \<open>0 \<le> nearest q\<close> have "0 < nearest q" by simp
      from to_double_pos [OF this] lt show ?thesis
        by (simp add: r nearest_idem [OF q])
    qed
  qed
  consider "0 < q" | "q = 0" | "q < 0" by linarith
  then show ?thesis
  proof cases
    case 1
    then show ?thesis using assms by (rule pos)
  next
    case 2
    with assms show ?thesis by (auto simp add: to_double_zero)
  next
    case 3
    then have "0 < - q" by simp
    moreover from assms have "to_double (- q) = Fin (- r)" by (simp add: to_double_neg)
    ultimately have "to_double (- r) = Fin (- r)" by (rule pos)
    then have "js_neg (to_double r) = Fin (- r)" by (simp add: to_double_neg)
    then show ?thesis by (cases "to_double r") simp_all
  qed
qed

lemma is_double_to_double: "is_double (to_double q)"
  by (cases "to_double q") (simp_all add: to_double_idem)

lemma is_double_js_add: "is_double (js_add a b)"
  by (cases a; cases b) (simp_all add: is_double_to_double)

lemma is_double_zero: "is_double (Fin 0)"
  by (simp add: to_double_zero)

lemma is_double_neg: "is_double a \<Longrightarrow> is_double (js_neg a)"
  by (cases a) (simp_all add: to_double_neg)

lemma is_double_abs: "is_double a \<Longrightarrow> is_double (Math_abs a)"
proof (cases a)
  case (Fin r)
  assume "is_double a"
  with Fin have r: "to_double r = Fin r" by simp
  show ?thesis
  proof (cases "0 \<le> r")
    case True
    with Fin r show ?thesis by simp
  next
    case False
    then have "\<bar>r\<bar> = - r" by simp
    with Fin r show ?thesis by (simp add: to_double_neg)
  qed
qed simp_all

section \<open>Amounts typed as digits\<close>

















section \<open>Rounding an amount in hundredths\<close>



section \<open>The sign of a submitted amount\<close>









section \<open>Validation of the amount of a transaction\<close>

lemma raw_amount_refine_iff:
  "raw_amount_refine val \<longleftrightarrow> \<not> (isNaN (Number val) \<or> Number val = Fin 0)"
  by (simp add: raw_amount_refine_def Let_def)

lemma rejected_amount_sends_nothing:
  assumes "isNaN (Number (tx_raw_amount data)) \<or> Number (tx_raw_amount data) = Fin 0"
  shows "\<not> transactionSchema data" and "submit_transaction accounts data = []"
    and "serve backend (submit_transaction accounts data) s = s"
  using assms
  by (auto simp add: raw_amount_refine_def transactionSchema_def submit_transaction_def
        handleSubmit_def serve_def Let_def)

text \<open>
  The schema reads the amount with \<open>Number\<close> and \<open>onSubmit\<close> reads it with \<open>parseFloat\<close>
  after the commas are replaced. The two readings differ on a hexadecimal literal and on
  an amount with a comma (which the pattern of the input field allows and the schema
  rejects), and \<open>toFixed(2)\<close> then rounds what \<open>parseFloat\<close> gives.
\<close>

lemma Number_and_parseFloat_read_differently:
  "Number ''0x10'' = Fin 16"
  "parseFloat (replace_commas ''0x10'') = Fin 0"
  "Number ''1,5'' = NaN"
  "parseFloat (replace_commas ''1,5'') = Fin (3 / 2)"
  "toFixed2 (parseFloat (replace_commas ''0.004'')) = ''0.00''"
  by code_simp+

text \<open>
  Claim C7, at an amount for which the code sends a zero magnitude. By
  \<open>raw_amount_refine_iff\<close> the refinement of \<open>raw_amount\<close> rejects a string exactly when
  \<open>Number\<close> reads it as NaN or as zero, and by \<open>rejected_amount_sends_nothing\<close> nothing is
  sent for such a form. But the refinement looks at the string as typed, and the request
  carries the amount after \<open>toFixed(2)\<close>: the amount \<open>0.004\<close> passes the schema, and the
  one request that is sent carries \<open>-0.00\<close>, a zero magnitude, which the refinement
  itself would reject.
\<close>

theorem amount_rounding_to_zero_reaches_entry_creation:
  "raw_amount_refine ''0.004''
   \<and> transactionSchema
       \<lparr> tx_account = ''a1'', tx_effective_date = Some ''2025-01-15'', tx_raw_amount = ''0.004'',
         tx_description = ''Stamp'', tx_direction = Out, tx_category = Some ''c1'' \<rparr>
   \<and> submit_transaction
       [\<lparr> acc_id = ''a1'', acc_name = ''Checking'', acc_type = ASSET, acc_subtype = CHECKING,
           current_balance = Some ''100.00'', cached_actual_balance = None \<rparr>]
       \<lparr> tx_account = ''a1'', tx_effective_date = Some ''2025-01-15'', tx_raw_amount = ''0.004'',
         tx_description = ''Stamp'', tx_direction = Out, tx_category = Some ''c1'' \<rparr>
     = [CreateTransaction
          \<lparr> p_account = ''a1'', p_effective_date = ''2025-01-15'', p_description = ''Stamp'',
            p_raw_amount = ''-0.00'', p_category = Some ''c1'' \<rparr>]
   \<and> Number ''-0.00'' = Fin 0
   \<and> \<not> raw_amount_refine ''-0.00''"
  by code_simp

section \<open>Validation of a transfer\<close>

lemma transferSchema_requires:
  assumes "transferSchema data"
  shows "\<not> isNaN (Number (tf_amount data))" and "js_gt (Number (tf_amount data)) (Fin 0)"
    and "tf_from_account data \<noteq> tf_to_account data"
  using assms by (simp_all add: transferSchema_def amount_refine_def Let_def)

lemma rejected_transfer_sends_nothing:
  assumes "isNaN (Number (tf_amount data)) \<or> \<not> js_gt (Number (tf_amount data)) (Fin 0)
        \<or> tf_from_account data = tf_to_account data"
  shows "\<not> transferSchema data" and "submit_transfer data = []"
    and "serve backend (submit_transfer data) s = s"
  using assms
  by (auto simp add: transferSchema_def amount_refine_def submit_transfer_def
        handleSubmit_def serve_def Let_def)

text \<open>
  Claim C2, at an amount for which the code sends a transfer of zero. By
  \<open>transferSchema_requires\<close> the schema accepts a form only if \<open>Number\<close> reads its amount
  as a number greater than zero and the two accounts differ, and by
  \<open>rejected_transfer_sends_nothing\<close> nothing is sent for a form that fails one of these
  conditions. But the schema looks at the string as typed, and the request carries the
  amount after \<open>toFixed(2)\<close>: the amount \<open>0.004\<close> passes the schema, and the one request
  that is sent carries the amount \<open>0.00\<close>, which is not greater than zero and which the
  schema itself would reject.
\<close>

theorem transfer_rounding_to_zero_is_requested:
  "transferSchema
     \<lparr> tf_from_account = ''A'', tf_to_account = ''B'', tf_effective_date = Some ''2025-01-15'',
       tf_amount = ''0.004'', tf_purpose_category = ''c7'', tf_description = None \<rparr>
   \<and> submit_transfer
       \<lparr> tf_from_account = ''A'', tf_to_account = ''B'', tf_effective_date = Some ''2025-01-15'',
         tf_amount = ''0.004'', tf_purpose_category = ''c7'', tf_description = None \<rparr>
     = [CreateTransfer
          \<lparr> t_from_account = ''A'', t_to_account = ''B'', t_amount = ''0.00'',
            t_effective_date = ''2025-01-15'', t_purpose_category = ''c7'',
            t_description = '''' \<rparr>]
   \<and> Number ''0.00'' = Fin 0
   \<and> \<not> js_gt (Number ''0.00'') (Fin 0)
   \<and> \<not> amount_refine ''0.00''"
  by code_simp

section \<open>The account filters\<close>

lemma updateFilter_keeps_allowed:
  assumes "subtype_allowed f" and "offered f key v"
  shows "subtype_allowed (updateFilter f key v)"
proof (cases key)
  case K_search
  with assms show ?thesis
    by (simp add: updateFilter_def set_field_def subtype_allowed_def)
next
  case K_type
  then show ?thesis
    by (auto simp add: updateFilter_def set_field_def subtype_allowed_def
          getAvailableSubtypesForType_def Let_def)
next
  case K_subtype
  with assms show ?thesis
    by (auto simp add: updateFilter_def set_field_def subtype_allowed_def offered_def
          getAvailableSubtypesForType_def)
qed

lemma updateFilters_keep_allowed:
  "subtype_allowed f \<Longrightarrow> all_offered f ops \<Longrightarrow> subtype_allowed (updateFilters f ops)"
proof (induction ops arbitrary: f)
  case Nil
  then show ?case by (simp add: updateFilters_def)
next
  case (Cons op ops)
  obtain key v where op: "op = (key, v)" by (cases op)
  from Cons.prems op have "subtype_allowed (updateFilter f key v)"
    by (simp add: updateFilter_keeps_allowed)
  moreover from Cons.prems op have "all_offered (updateFilter f key v) ops" by simp
  ultimately have "subtype_allowed (updateFilters (updateFilter f key v) ops)"
    by (rule Cons.IH)
  then show ?case by (simp add: updateFilters_def op)
qed

text \<open>
  Claim C8. The transitions are the calls of \<open>updateFilter\<close> that the controls of the
  component make: any search text, any type, and for the subtype \<open>all\<close> or one of the
  subtypes that \<open>getAvailableSubtypesForType\<close> gives for the current type, which are the
  options of the subtype select. Starting from the default filters, every sequence of
  such updates ends in a state where the subtype is allowed for the type; and an update
  of the type gives such a state from any state, since it resets a subtype that the new
  type does not have.
\<close>

theorem offered_updates_keep_subtype_allowed:
  "(all_offered default_filters ops \<longrightarrow> subtype_allowed (updateFilters default_filters ops))
   \<and> subtype_allowed (updateFilter f K_type v)"
proof
  have "subtype_allowed default_filters"
    by (simp add: subtype_allowed_def default_filters_def)
  then show "all_offered default_filters ops \<longrightarrow> subtype_allowed (updateFilters default_filters ops)"
    by (simp add: updateFilters_keep_allowed)
  show "subtype_allowed (updateFilter f K_type v)"
    by (auto simp add: updateFilter_def set_field_def subtype_allowed_def
          getAvailableSubtypesForType_def Let_def)
qed

theorem offered_updates_witness:
  "all_offered default_filters
     [(K_type, ''LIABILITY''), (K_subtype, ''CREDIT''), (K_search, ''visa''), (K_type, ''ASSET'')]
   \<and> updateFilters default_filters
       [(K_type, ''LIABILITY''), (K_subtype, ''CREDIT''), (K_search, ''visa''), (K_type, ''ASSET'')]
     = \<lparr> f_search = ''visa'', f_type = ''ASSET'', f_subtype = ''all'' \<rparr>
   \<and> subtype_allowed (updateFilters default_filters
       [(K_type, ''LIABILITY''), (K_subtype, ''CREDIT''), (K_search, ''visa''), (K_type, ''ASSET'')])"
proof -
  have off: "all_offered default_filters
     [(K_type, ''LIABILITY''), (K_subtype, ''CREDIT''), (K_search, ''visa''), (K_type, ''ASSET'')]"
    by (simp add: default_filters_def offered_def updateFilter_def set_field_def
          getAvailableSubtypesForType_def)
  have res: "updateFilters default_filters
       [(K_type, ''LIABILITY''), (K_subtype, ''CREDIT''), (K_search, ''visa''), (K_type, ''ASSET'')]
     = \<lparr> f_search = ''visa'', f_type = ''ASSET'', f_subtype = ''all'' \<rparr>"
    by (simp add: updateFilters_def default_filters_def updateFilter_def set_field_def
          getAvailableSubtypesForType_def)
  from off offered_updates_keep_subtype_allowed
         [of "[(K_type, ''LIABILITY''), (K_subtype, ''CREDIT''), (K_search, ''visa''), (K_type, ''ASSET'')]"]
  have "subtype_allowed (updateFilters default_filters
       [(K_type, ''LIABILITY''), (K_subtype, ''CREDIT''), (K_search, ''visa''), (K_type, ''ASSET'')])"
    by blast
  with off res show ?thesis by blast
qed

section \<open>The current category of a selection and of an entry\<close>

text \<open>
  Claim C4, as amended. \<open>getCurrentCategory\<close> never fails; for a selected id that is not
  in the catalog it returns the name \<open>Unknown Category\<close> with \<open>isUncategorized = false\<close>,
  and it reports \<open>Uncategorized\<close> exactly for the \<open>null\<close> selection.
  \<open>getCurrentCategoryInfo\<close> does not read the catalog: it reports \<open>Uncategorized\<close> exactly
  when the effective category of the entry is of type \<open>uncategorized\<close>, or is absent and
  the entry has no category name; the name is then \<open>Uncategorized\<close>.
\<close>

theorem stale_category_is_unknown_not_uncategorized:
  "(cid \<notin> cat_id ` set categories \<longrightarrow>
      getCurrentCategory categories placeholder (Val cid)
        = \<lparr> cc_name = ''Unknown Category'', cc_isUncategorized = False \<rparr>)
   \<and> (cc_isUncategorized (getCurrentCategory categories placeholder selected)
        \<longleftrightarrow> selected = Null)
   \<and> (ci_isUncategorized (getCurrentCategoryInfo entry) \<longleftrightarrow>
        (case le_effective_category entry of
           Some ec \<Rightarrow> ec_type ec = uncategorized
         | None \<Rightarrow> \<not> truthy (le_category_name entry)))
   \<and> (ci_isUncategorized (getCurrentCategoryInfo entry) \<longrightarrow>
        ci_name (getCurrentCategoryInfo entry) = ''Uncategorized'')"
proof -
  have "cid \<notin> cat_id ` set categories \<Longrightarrow> find (\<lambda>c. cat_id c = cid) categories = None"
    by (auto simp add: find_None_iff)
  then have a: "cid \<notin> cat_id ` set categories \<longrightarrow>
      getCurrentCategory categories placeholder (Val cid)
        = \<lparr> cc_name = ''Unknown Category'', cc_isUncategorized = False \<rparr>"
    by (simp add: getCurrentCategory_def)
  have b: "cc_isUncategorized (getCurrentCategory categories placeholder selected)
        \<longleftrightarrow> selected = Null"
    by (cases selected) (simp_all add: getCurrentCategory_def Let_def)
  have c: "ci_isUncategorized (getCurrentCategoryInfo entry) \<longleftrightarrow>
        (case le_effective_category entry of
           Some ec \<Rightarrow> ec_type ec = uncategorized
         | None \<Rightarrow> \<not> truthy (le_category_name entry))"
    by (simp add: getCurrentCategoryInfo_def split: option.split effective_kind.split)
  have d: "ci_isUncategorized (getCurrentCategoryInfo entry) \<longrightarrow>
        ci_name (getCurrentCategoryInfo entry) = ''Uncategorized''"
    by (simp add: getCurrentCategoryInfo_def split: option.split effective_kind.split)
  from a b c d show ?thesis by blast
qed

theorem stale_category_witness:
  "''c9'' \<notin> cat_id ` set [\<lparr> cat_id = ''c1'', cat_name = ''Rent'', cat_group = None,
          cat_group_name = Some ''Housing'', cat_type = EXPENSE \<rparr>]
   \<and> getCurrentCategory
        [\<lparr> cat_id = ''c1'', cat_name = ''Rent'', cat_group = None,
           cat_group_name = Some ''Housing'', cat_type = EXPENSE \<rparr>]
        ''Choose category...'' (Val ''c9'')
      = \<lparr> cc_name = ''Unknown Category'', cc_isUncategorized = False \<rparr>
   \<and> ci_isUncategorized (getCurrentCategoryInfo
        \<lparr> le_id = ''e1'', le_category = Some ''c9'', le_category_name = None,
          le_category_type = None, le_effective_category = None \<rparr>)
   \<and> ci_name (getCurrentCategoryInfo
        \<lparr> le_id = ''e1'', le_category = Some ''c9'', le_category_name = None,
          le_category_type = None, le_effective_category = None \<rparr>) = ''Uncategorized''"
  using stale_category_is_unknown_not_uncategorized
          [of "''c9''" "[\<lparr> cat_id = ''c1'', cat_name = ''Rent'', cat_group = None,
           cat_group_name = Some ''Housing'', cat_type = EXPENSE \<rparr>]" "''Choose category...''"
              Null
              "\<lparr> le_id = ''e1'', le_category = Some ''c9'', le_category_name = None,
          le_category_type = None, le_effective_category = None \<rparr>"]
  by (simp add: truthy_def)

text \<open>
  Claim C4 as stated fails: for an id that is missing from the catalog,
  \<open>getCurrentCategory\<close> does not return the uncategorized result.
\<close>

theorem stale_category_not_uncategorized:
  "\<not> (\<forall>(categories :: Category list) placeholder cid. cid \<notin> cat_id ` set categories \<longrightarrow>
         getCurrentCategory categories placeholder (Val cid)
           = \<lparr> cc_name = ''Uncategorized'', cc_isUncategorized = True \<rparr>)"
proof
  assume "\<forall>(categories :: Category list) placeholder cid. cid \<notin> cat_id ` set categories \<longrightarrow>
         getCurrentCategory categories placeholder (Val cid)
           = \<lparr> cc_name = ''Uncategorized'', cc_isUncategorized = True \<rparr>"
  then have "''c9'' \<notin> cat_id ` set ([] :: Category list) \<longrightarrow> getCurrentCategory [] ''Choose category...'' (Val ''c9'')
           = \<lparr> cc_name = ''Uncategorized'', cc_isUncategorized = True \<rparr>"
    by blast
  then show False by (simp add: getCurrentCategory_def)
qed

section \<open>The net worth of the account summary\<close>

lemma js_lt_NegInf: "\<not> js_lt x NegInf"
  by (cases x) simp_all

lemma js_lt_NaN: "\<not> js_lt x NaN"
  by (cases x) simp_all

lemma js_lt_PosInf: "\<not> js_lt PosInf x"
  by (cases x) simp_all

lemma to_double_sum_nonneg: "0 \<le> p \<Longrightarrow> js_le (Fin 0) (to_double (p + \<bar>r\<bar>))"
  by (rule to_double_nonneg) simp

lemma add_abs_nonneg:
  assumes "s = NaN \<or> js_le (Fin 0) s"
  shows "js_add s (Math_abs x) = NaN \<or> js_le (Fin 0) (js_add s (Math_abs x))"
proof (cases s)
  case (Fin p)
  with assms have "0 \<le> p" by (simp add: js_le_def)
  then have "js_le (Fin 0) (to_double (p + \<bar>r\<bar>))" for r by (rule to_double_sum_nonneg)
  with Fin show ?thesis by (cases x) (simp_all add: js_le_def)
next
  case NegInf
  with assms show ?thesis by (simp add: js_le_def)
qed (cases x; simp add: js_le_def)+

lemma foldl_abs_nonneg:
  assumes "s = NaN \<or> js_le (Fin 0) s"
  shows "foldl (\<lambda>sum acc. js_add sum (Math_abs (balance_of acc))) s accs = NaN
     \<or> js_le (Fin 0) (foldl (\<lambda>sum acc. js_add sum (Math_abs (balance_of acc))) s accs)"
  using assms
proof (induction accs arbitrary: s)
  case Nil
  then show ?case by simp
next
  case (Cons a accs)
  from Cons.prems have "js_add s (Math_abs (balance_of a)) = NaN
      \<or> js_le (Fin 0) (js_add s (Math_abs (balance_of a)))"
    by (rule add_abs_nonneg)
  then show ?case using Cons.IH by simp
qed

lemma is_double_foldl:
  "is_double s \<Longrightarrow> is_double (foldl (\<lambda>sum acc. js_add sum (f acc)) s accs)"
  by (induction accs arbitrary: s) (simp_all add: is_double_js_add)

lemma add_abs_grows:
  assumes "is_double a" and "js_le (Fin 0) a"
  shows "js_add a (Math_abs x) = NaN \<or> js_le a (js_add a (Math_abs x))"
proof (cases a)
  case (Fin p)
  with assms have p: "to_double p = Fin p" by simp
  have "js_le (to_double p) (to_double (p + \<bar>r\<bar>))" for r by (rule to_double_mono) simp
  then have "js_le (Fin p) (to_double (p + \<bar>r\<bar>))" for r by (simp add: p)
  with Fin show ?thesis by (cases x) (simp_all add: js_le_def)
next
  case NegInf
  with assms show ?thesis by (simp add: js_le_def)
qed (cases x; simp add: js_le_def)+

lemma js_le_Fin: "js_le (Fin a) (Fin b) \<longleftrightarrow> a \<le> b"
  by (auto simp add: js_le_def)

lemma js_le_NaN: "\<not> js_le NaN x" "\<not> js_le x NaN"
  by (cases x; simp add: js_le_def)+

lemma js_le_PosInf: "js_le x PosInf \<longleftrightarrow> \<not> isNaN x" "js_le PosInf x \<longleftrightarrow> x = PosInf"
  by (cases x; simp add: js_le_def)+

lemma js_le_NegInf: "js_le NegInf x \<longleftrightarrow> \<not> isNaN x" "js_le x NegInf \<longleftrightarrow> x = NegInf"
  by (cases x; simp add: js_le_def)+

lemma isNaN_to_double: "\<not> isNaN (to_double q)"
  by (cases "to_double q") (simp_all add: to_double_not_NaN)

lemmas js_le_simps = js_le_Fin js_le_NaN js_le_PosInf js_le_NegInf isNaN_to_double
  to_double_not_NaN

lemma add_abs_mono:
  assumes "b = NaN \<or> (js_le (Fin 0) a \<and> js_le a b)"
  shows "js_add b (Math_abs y) = NaN
     \<or> (js_le (Fin 0) (js_add a (Math_abs y))
        \<and> js_le (js_add a (Math_abs y)) (js_add b (Math_abs y)))"
  using assms
  by (cases a; cases b; cases y)
     (simp_all add: js_le_simps to_double_mono to_double_sum_nonneg)

lemma foldl_abs_mono:
  assumes "b = NaN \<or> (js_le (Fin 0) a \<and> js_le a b)"
  shows "foldl (\<lambda>sum acc. js_add sum (Math_abs (balance_of acc))) b accs = NaN
     \<or> js_le (foldl (\<lambda>sum acc. js_add sum (Math_abs (balance_of acc))) a accs)
             (foldl (\<lambda>sum acc. js_add sum (Math_abs (balance_of acc))) b accs)"
  using assms
proof (induction accs arbitrary: a b)
  case Nil
  then show ?case by auto
next
  case (Cons x accs)
  have "js_add b (Math_abs (balance_of x)) = NaN
     \<or> (js_le (Fin 0) (js_add a (Math_abs (balance_of x)))
        \<and> js_le (js_add a (Math_abs (balance_of x))) (js_add b (Math_abs (balance_of x))))"
    using Cons.prems by (rule add_abs_mono)
  then show ?case using Cons.IH by simp
qed

lemma sub_antimono:
  assumes "l' = NaN \<or> js_le l l'"
  shows "\<not> js_lt (js_sub t l) (js_sub t l')"
proof -
  have "\<not> js_lt (to_double (a - b)) (to_double (a - b'))" if "b \<le> b'" for a b b' :: rat
  proof -
    from that have "a - b' \<le> a - b" by simp
    then have "js_le (to_double (a - b')) (to_double (a - b))" by (rule to_double_mono)
    then show ?thesis by (simp add: js_le_def)
  qed
  with assms show ?thesis
    by (cases t; cases l; cases l')
       (simp_all add: js_sub_def js_le_simps js_lt_NegInf js_lt_NaN js_lt_PosInf)
qed

lemma liability_total_grows:
  assumes "acc_type l = LIABILITY"
  shows "foldl (\<lambda>sum acc. js_add sum (Math_abs (balance_of acc))) (Fin 0)
           (filter (\<lambda>acc. acc_type acc = LIABILITY) (xs @ l # ys)) = NaN
     \<or> js_le (foldl (\<lambda>sum acc. js_add sum (Math_abs (balance_of acc))) (Fin 0)
                (filter (\<lambda>acc. acc_type acc = LIABILITY) (xs @ ys)))
             (foldl (\<lambda>sum acc. js_add sum (Math_abs (balance_of acc))) (Fin 0)
                (filter (\<lambda>acc. acc_type acc = LIABILITY) (xs @ l # ys)))"
proof -
  let ?g = "\<lambda>sum acc. js_add sum (Math_abs (balance_of acc))"
  let ?L = "\<lambda>zs. filter (\<lambda>acc. acc_type acc = LIABILITY) zs"
  define a where "a = foldl ?g (Fin 0) (?L xs)"
  define b where "b = js_add a (Math_abs (balance_of l))"
  have dbl: "is_double a" unfolding a_def by (rule is_double_foldl) (rule is_double_zero)
  have "a = NaN \<or> js_le (Fin 0) a" unfolding a_def
    by (rule foldl_abs_nonneg) (simp add: js_le_Fin)
  then have "b = NaN \<or> (js_le (Fin 0) a \<and> js_le a b)"
  proof
    assume "a = NaN"
    then show ?thesis by (simp add: b_def)
  next
    assume "js_le (Fin 0) a"
    with add_abs_grows [OF dbl this, of "balance_of l"] show ?thesis by (simp add: b_def)
  qed
  then have "foldl ?g b (?L ys) = NaN \<or> js_le (foldl ?g a (?L ys)) (foldl ?g b (?L ys))"
    by (rule foldl_abs_mono)
  moreover have "foldl ?g (Fin 0) (?L (xs @ l # ys)) = foldl ?g b (?L ys)"
    using assms by (simp add: a_def b_def)
  moreover have "foldl ?g (Fin 0) (?L (xs @ ys)) = foldl ?g a (?L ys)"
    by (simp add: a_def)
  ultimately show ?thesis by simp
qed

lemma sub_nonneg_le:
  assumes "is_double a" and "l = NaN \<or> js_le (Fin 0) l"
  shows "\<not> js_lt a (js_sub a l)"
proof (cases a)
  case (Fin p)
  with assms(1) have p: "to_double p = Fin p" by simp
  have "\<not> js_lt (Fin p) (to_double (p - r))" if "0 \<le> r" for r
  proof -
    from that have "p - r \<le> p" by simp
    then have "js_le (to_double (p - r)) (to_double p)" by (rule to_double_mono)
    then show ?thesis by (simp add: js_le_def p)
  qed
  with Fin assms(2) show ?thesis
    by (cases l) (simp_all add: js_sub_def js_le_simps js_lt_NegInf js_lt_NaN)
next
  case NegInf
  with assms(2) show ?thesis
    by (cases l) (simp_all add: js_sub_def js_le_simps)
qed (simp_all add: js_sub_def js_lt_PosInf)

lemma nearest_int:
  assumes "0 < n" and "n < 2 ^ 53"
  shows "nearest (of_int n) = of_int n"
proof -
  define a :: rat where "a = of_int n"
  define j where "j = - exponent a"
  from assms(1) have a: "0 < a" by (simp add: a_def)
  from assms(2) have "(of_int n :: rat) < of_int (2 ^ 53)" by (simp only: of_int_less_iff)
  then have "a < 2 powi 53" by (simp add: a_def)
  with flog2_bounds(1) [OF a] have "(2::rat) powi (flog2 a) < 2 powi 53" by (rule le_less_trans)
  then have "flog2 a < 53" by (simp only: pow2_less_iff)
  then have j: "0 \<le> j" by (simp add: j_def exponent_def)
  have "(2::rat) powi j * quantum a = 2 powi (j + exponent a)"
    unfolding quantum_powi by (rule pow2_add [symmetric])
  then have "(2::rat) powi j * quantum a = 1" by (simp add: j_def)
  moreover have "(2::rat) powi j = of_int (2 ^ nat j)" using j by (rule pow2_int)
  ultimately have q: "of_int (2 ^ nat j) * quantum a = 1" by simp
  with quantum_pos [of a] have "a / quantum a = a * of_int (2 ^ nat j)"
    by (simp add: field_simps)
  then have "a / quantum a = of_int (n * 2 ^ nat j)" by (simp add: a_def)
  then have "nearest a = of_int (n * 2 ^ nat j) * quantum a"
    by (simp only: nearest_def rne_of_int)
  also have "\<dots> = a * (of_int (2 ^ nat j) * quantum a)" by (simp add: a_def)
  also have "\<dots> = a" by (simp only: q mult_1_right)
  finally show ?thesis by (simp only: a_def)
qed

lemma to_double_int:
  assumes "\<bar>n\<bar> < 2 ^ 53"
  shows "to_double (of_int n) = Fin (of_int n)"
proof -
  have pos: "to_double (of_int m) = Fin (of_int m)" if "0 < m" and "m < 2 ^ 53" for m :: int
  proof -
    from that(2) have "(of_int m :: rat) < of_int (2 ^ 53)" by (simp only: of_int_less_iff)
    then have "(of_int m :: rat) < 2 powi 53" by simp
    also have "(2::rat) powi 53 < 2 powi 1024" by (rule pow2_strict_mono) simp
    finally have "\<not> 2 powi 1024 \<le> (of_int m :: rat)" by simp
    moreover from that(1) have "0 < (of_int m :: rat)" by simp
    ultimately show ?thesis by (simp add: to_double_pos nearest_int [OF that])
  qed
  consider "0 < n" | "n = 0" | "n < 0" by linarith
  then show ?thesis
  proof cases
    case 1
    with assms show ?thesis by (intro pos) simp_all
  next
    case 2
    then show ?thesis by (simp add: to_double_zero)
  next
    case 3
    with assms have "to_double (of_int (- n)) = Fin (of_int (- n))" by (intro pos) simp_all
    then have "js_neg (to_double (of_int n)) = Fin (- of_int n)" by (simp add: to_double_neg)
    then show ?thesis by (cases "to_double (of_int n)") simp_all
  qed
qed

lemma foldl_add_int:
  assumes "\<forall>x \<in> set xs. f x = Fin (of_int (g x))"
    and "\<bar>s\<bar> + sum_list (map (\<lambda>x. \<bar>g x\<bar>) xs) < 2 ^ 53"
  shows "foldl (\<lambda>sum x. js_add sum (f x)) (Fin (of_int s)) xs
     = Fin (of_int (s + sum_list (map g xs)))"
  using assms
proof (induction xs arbitrary: s)
  case Nil
  then show ?case by simp
next
  case (Cons x xs)
  have nonneg: "0 \<le> sum_list (map (\<lambda>x. \<bar>g x\<bar>) xs)" by (rule sum_list_nonneg) auto
  from Cons.prems(2) nonneg have "\<bar>s + g x\<bar> < 2 ^ 53" by simp
  then have "to_double (of_int (s + g x)) = Fin (of_int (s + g x))" by (rule to_double_int)
  with Cons.prems(1) have step: "js_add (Fin (of_int s)) (f x) = Fin (of_int (s + g x))" by simp
  from Cons.prems(1) have rest: "\<forall>y \<in> set xs. f y = Fin (of_int (g y))" by simp
  from Cons.prems(2) have "\<bar>s + g x\<bar> + sum_list (map (\<lambda>x. \<bar>g x\<bar>) xs) < 2 ^ 53" by simp
  from Cons.IH [OF rest this] show ?case by (simp add: step algebra_simps)
qed

lemma sum_by_type:
  "sum_list (map h (filter (\<lambda>acc. acc_type acc = ASSET) accounts))
     + sum_list (map h (filter (\<lambda>acc. acc_type acc = LIABILITY) accounts))
   = (sum_list (map h accounts) :: int)"
proof (induction accounts)
  case Nil
  then show ?case by simp
next
  case (Cons a accounts)
  then show ?case by (cases "acc_type a") simp_all
qed

lemma netWorth_whole_units:
  assumes whole: "\<forall>acc \<in> set accounts. balance_of acc = Fin (of_int (units acc))"
    and bound: "sum_list (map (\<lambda>acc. \<bar>units acc\<bar>) accounts) < 2 ^ 53"
  shows "as_netWorth (getAccountSummary accounts)
     = Fin (of_int (sum_list (map units (filter (\<lambda>acc. acc_type acc = ASSET) accounts))
                    - sum_list (map (\<lambda>acc. \<bar>units acc\<bar>)
                                  (filter (\<lambda>acc. acc_type acc = LIABILITY) accounts))))"
proof -
  let ?as = "filter (\<lambda>acc. acc_type acc = ASSET) accounts"
  let ?ls = "filter (\<lambda>acc. acc_type acc = LIABILITY) accounts"
  let ?abs = "\<lambda>acc. \<bar>units acc\<bar>"
  have a0: "0 \<le> sum_list (map ?abs ?as)" and l0: "0 \<le> sum_list (map ?abs ?ls)"
    by (rule sum_list_nonneg, auto)+
  from sum_by_type [of ?abs accounts] bound
  have total: "sum_list (map ?abs ?as) + sum_list (map ?abs ?ls) < 2 ^ 53" by simp
  have "\<forall>acc \<in> set ?as. balance_of acc = Fin (of_int (units acc))" using whole by simp
  moreover from total l0 have "\<bar>0\<bar> + sum_list (map ?abs ?as) < 2 ^ 53" by simp
  ultimately have A: "foldl (\<lambda>sum acc. js_add sum (balance_of acc)) (Fin (of_int 0)) ?as
      = Fin (of_int (0 + sum_list (map units ?as)))"
    by (rule foldl_add_int)
  have "\<forall>acc \<in> set ?ls. Math_abs (balance_of acc) = Fin (of_int \<bar>units acc\<bar>)"
    using whole by simp
  moreover from total a0 have "\<bar>0\<bar> + sum_list (map (\<lambda>acc. \<bar>\<bar>units acc\<bar>\<bar>) ?ls) < 2 ^ 53"
    by simp
  ultimately have L: "foldl (\<lambda>sum acc. js_add sum (Math_abs (balance_of acc))) (Fin (of_int 0)) ?ls
      = Fin (of_int (0 + sum_list (map ?abs ?ls)))"
    by (rule foldl_add_int)
  have "\<bar>sum_list (map units ?as)\<bar> \<le> sum_list (map ?abs ?as)"
    using sum_list_abs [of "map units ?as"] by (simp add: comp_def)
  with total l0 have "\<bar>sum_list (map units ?as) - sum_list (map ?abs ?ls)\<bar> < 2 ^ 53" by simp
  then have "to_double (of_int (sum_list (map units ?as) - sum_list (map ?abs ?ls)))
      = Fin (of_int (sum_list (map units ?as) - sum_list (map ?abs ?ls)))"
    by (rule to_double_int)
  with A L show ?thesis by (simp add: getAccountSummary_def Let_def js_sub_def)
qed

text \<open>
  Claim C10. The net worth of the summary is the total of the asset balances minus the
  total of the absolute values of the liability balances, each total being the running
  sum from 0, in JavaScript numbers and in the order of the list, of the balances that
  the summary reads (\<open>current_balance\<close>, or \<open>cached_actual_balance\<close> and then \<open>"0"\<close> when
  it is empty or absent). When the balances are whole numbers whose magnitudes add up to
  less than \<open>2^53\<close> no addition rounds, and the net worth is the sum of the asset
  balances minus the sum of the absolute liability balances. In every case the total of
  the liabilities is never negative and the net worth is never greater than the total of
  the assets. Consequently adding a liability account anywhere in the list never gives a
  greater net worth, whatever the sign of its balance.
\<close>

theorem netWorth_is_assets_minus_absolute_liabilities:
  "as_netWorth (getAccountSummary accounts)
     = js_sub (foldl (\<lambda>sum acc. js_add sum (balance_of acc)) (Fin 0)
                 (filter (\<lambda>acc. acc_type acc = ASSET) accounts))
              (foldl (\<lambda>sum acc. js_add sum (Math_abs (balance_of acc))) (Fin 0)
                 (filter (\<lambda>acc. acc_type acc = LIABILITY) accounts))
   \<and> ((\<forall>acc \<in> set accounts. balance_of acc = Fin (of_int (units acc))) \<longrightarrow>
        sum_list (map (\<lambda>acc. \<bar>units acc\<bar>) accounts) < 2 ^ 53 \<longrightarrow>
        as_netWorth (getAccountSummary accounts)
          = Fin (of_int (sum_list (map units (filter (\<lambda>acc. acc_type acc = ASSET) accounts))
                         - sum_list (map (\<lambda>acc. \<bar>units acc\<bar>)
                                       (filter (\<lambda>acc. acc_type acc = LIABILITY) accounts)))))
   \<and> \<not> js_lt (tt_total (as_liabilities (getAccountSummary accounts))) (Fin 0)
   \<and> \<not> js_lt (tt_total (as_assets (getAccountSummary accounts)))
              (as_netWorth (getAccountSummary accounts))
   \<and> (acc_type l = LIABILITY \<longrightarrow>
        \<not> js_lt (as_netWorth (getAccountSummary (xs @ ys)))
                 (as_netWorth (getAccountSummary (xs @ l # ys))))"
proof (intro conjI impI)
  let ?A = "foldl (\<lambda>sum acc. js_add sum (balance_of acc)) (Fin 0)
              (filter (\<lambda>acc. acc_type acc = ASSET) accounts)"
  let ?L = "foldl (\<lambda>sum acc. js_add sum (Math_abs (balance_of acc))) (Fin 0)
              (filter (\<lambda>acc. acc_type acc = LIABILITY) accounts)"
  show "as_netWorth (getAccountSummary accounts) = js_sub ?A ?L"
    by (simp add: getAccountSummary_def Let_def)
  have L: "?L = NaN \<or> js_le (Fin 0) ?L"
    by (rule foldl_abs_nonneg) (simp add: js_le_Fin)
  then have "\<not> js_lt ?L (Fin 0)" by (auto simp add: js_le_def)
  then show "\<not> js_lt (tt_total (as_liabilities (getAccountSummary accounts))) (Fin 0)"
    by (simp add: getAccountSummary_def Let_def)
  have "is_double ?A" by (rule is_double_foldl) (rule is_double_zero)
  from sub_nonneg_le [OF this L]
  show "\<not> js_lt (tt_total (as_assets (getAccountSummary accounts)))
              (as_netWorth (getAccountSummary accounts))"
    by (simp add: getAccountSummary_def Let_def)
next
  assume "\<forall>acc \<in> set accounts. balance_of acc = Fin (of_int (units acc))"
    and "sum_list (map (\<lambda>acc. \<bar>units acc\<bar>) accounts) < 2 ^ 53"
  then show "as_netWorth (getAccountSummary accounts)
     = Fin (of_int (sum_list (map units (filter (\<lambda>acc. acc_type acc = ASSET) accounts))
                    - sum_list (map (\<lambda>acc. \<bar>units acc\<bar>)
                                  (filter (\<lambda>acc. acc_type acc = LIABILITY) accounts))))"
    by (rule netWorth_whole_units)
next
  assume l: "acc_type l = LIABILITY"
  have same: "filter (\<lambda>acc. acc_type acc = ASSET) (xs @ l # ys)
      = filter (\<lambda>acc. acc_type acc = ASSET) (xs @ ys)"
    using l by simp
  from liability_total_grows [OF l, of xs ys]
  have "\<not> js_lt (js_sub t (foldl (\<lambda>sum acc. js_add sum (Math_abs (balance_of acc))) (Fin 0)
                      (filter (\<lambda>acc. acc_type acc = LIABILITY) (xs @ ys))))
           (js_sub t (foldl (\<lambda>sum acc. js_add sum (Math_abs (balance_of acc))) (Fin 0)
                      (filter (\<lambda>acc. acc_type acc = LIABILITY) (xs @ l # ys))))" for t
    by (rule sub_antimono)
  then show "\<not> js_lt (as_netWorth (getAccountSummary (xs @ ys)))
                 (as_netWorth (getAccountSummary (xs @ l # ys)))"
    unfolding getAccountSummary_def Let_def AccountSummary.simps same by blast
qed

lemma balance_examples:
  "balance_of \<lparr> acc_id = ''a1'', acc_name = ''Checking'', acc_type = ASSET,
                 acc_subtype = CHECKING, current_balance = Some ''100.00'',
                 cached_actual_balance = None \<rparr> = Fin 100"
  "balance_of \<lparr> acc_id = ''a2'', acc_name = ''Card'', acc_type = LIABILITY,
                 acc_subtype = CREDIT, current_balance = Some ''-20.00'',
                 cached_actual_balance = None \<rparr> = Fin (- 20)"
  by code_simp+

lemma netWorth_rounds:
  "as_netWorth (getAccountSummary
      [\<lparr> acc_id = ''a1'', acc_name = ''Checking'', acc_type = ASSET, acc_subtype = CHECKING,
          current_balance = Some ''0.1'', cached_actual_balance = None \<rparr>,
       \<lparr> acc_id = ''a3'', acc_name = ''Savings'', acc_type = ASSET, acc_subtype = SAVINGS,
          current_balance = Some ''0.2'', cached_actual_balance = None \<rparr>,
       \<lparr> acc_id = ''a2'', acc_name = ''Card'', acc_type = LIABILITY, acc_subtype = CREDIT,
          current_balance = Some ''0.3'', cached_actual_balance = None \<rparr>])
     = Fin (1 / 18014398509481984)"
  by code_simp

theorem netWorth_witness:
  "as_netWorth (getAccountSummary
      [\<lparr> acc_id = ''a1'', acc_name = ''Checking'', acc_type = ASSET, acc_subtype = CHECKING,
          current_balance = Some ''100.00'', cached_actual_balance = None \<rparr>,
       \<lparr> acc_id = ''a2'', acc_name = ''Card'', acc_type = LIABILITY, acc_subtype = CREDIT,
          current_balance = Some ''-20.00'', cached_actual_balance = None \<rparr>]) = Fin 80
   \<and> as_netWorth (getAccountSummary
      [\<lparr> acc_id = ''a1'', acc_name = ''Checking'', acc_type = ASSET, acc_subtype = CHECKING,
          current_balance = Some ''100.00'', cached_actual_balance = None \<rparr>]) = Fin 100
   \<and> \<not> js_lt (as_netWorth (getAccountSummary
          [\<lparr> acc_id = ''a1'', acc_name = ''Checking'', acc_type = ASSET,
              acc_subtype = CHECKING, current_balance = Some ''100.00'',
              cached_actual_balance = None \<rparr>]))
        (as_netWorth (getAccountSummary
          [\<lparr> acc_id = ''a1'', acc_name = ''Checking'', acc_type = ASSET,
              acc_subtype = CHECKING, current_balance = Some ''100.00'',
              cached_actual_balance = None \<rparr>,
           \<lparr> acc_id = ''a2'', acc_name = ''Card'', acc_type = LIABILITY,
              acc_subtype = CREDIT, current_balance = Some ''-20.00'',
              cached_actual_balance = None \<rparr>]))"
proof -
  let ?a = "\<lparr> acc_id = ''a1'', acc_name = ''Checking'', acc_type = ASSET, acc_subtype = CHECKING,
          current_balance = Some ''100.00'', cached_actual_balance = None \<rparr>"
  let ?l = "\<lparr> acc_id = ''a2'', acc_name = ''Card'', acc_type = LIABILITY, acc_subtype = CREDIT,
          current_balance = Some ''-20.00'', cached_actual_balance = None \<rparr>"
  let ?units = "\<lambda>acc. if acc_type acc = ASSET then 100 else - 20 :: int"
  note both = netWorth_is_assets_minus_absolute_liabilities [of "[?a, ?l]" ?units ?l "[?a]" "[]"]
  note one = netWorth_is_assets_minus_absolute_liabilities [of "[?a]" ?units ?l "[?a]" "[]"]
  from both [THEN conjunct2, THEN conjunct1] balance_examples
  have a: "as_netWorth (getAccountSummary [?a, ?l]) = Fin 80" by simp
  from one [THEN conjunct2, THEN conjunct1] balance_examples
  have b: "as_netWorth (getAccountSummary [?a]) = Fin 100" by simp
  from one [THEN conjunct2, THEN conjunct2, THEN conjunct2, THEN conjunct2]
  have "\<not> js_lt (as_netWorth (getAccountSummary [?a])) (as_netWorth (getAccountSummary [?a, ?l]))"
    by simp
  with a b show ?thesis by blast
qed

section \<open>Balance recomputation\<close>

text \<open>
  Claim C9. For every account of the ledger, recomputing the balance returns a response
  and a ledger, and recomputing it again on that ledger, with no entry written in
  between, returns \<open>was_updated = false\<close> and a difference of zero and leaves the
  ledger, so the stored balance, as it is; the client function returns that response as
  it is.
\<close>

theorem recomputeBalance_idempotent:
  "lg_balances ledger accountId \<noteq> None \<longrightarrow>
     (\<exists>r1 ledger1 r2.
        recomputeBalance ledger accountId = Inr (r1, ledger1)
        \<and> recomputeBalance ledger1 accountId = Inr (r2, ledger1)
        \<and> r2 = \<lparr> rb_previous_balance = rb_current_balance r1,
                  rb_current_balance = rb_current_balance r1,
                  rb_difference = 0,
                  rb_was_updated = False \<rparr>
        \<and> refreshAccountBalance (\<lambda>i. Response_ok r2) accountId = Inr r2)"
proof
  assume "lg_balances ledger accountId \<noteq> None"
  then obtain previous where p: "lg_balances ledger accountId = Some previous" by auto
  define current where
    "current = sum_list (map se_signed_amount
                 (filter (\<lambda>e. se_account e = accountId) (lg_entries ledger)))"
  define ledger1 where
    "ledger1 = ledger\<lparr>lg_balances := (lg_balances ledger)(accountId \<mapsto> current)\<rparr>"
  define r1 where
    "r1 = \<lparr> rb_previous_balance = previous, rb_current_balance = current,
            rb_difference = current - previous, rb_was_updated = (current \<noteq> previous) \<rparr>"
  define r2 where
    "r2 = \<lparr> rb_previous_balance = current, rb_current_balance = current,
            rb_difference = 0, rb_was_updated = False \<rparr>"
  have first: "recomputeBalance ledger accountId = Inr (r1, ledger1)"
    by (simp add: recomputeBalance_def p current_def ledger1_def r1_def Let_def)
  have "ledger1\<lparr>lg_balances := (lg_balances ledger1)(accountId \<mapsto> current)\<rparr> = ledger1"
    by (simp add: ledger1_def)
  then have second: "recomputeBalance ledger1 accountId = Inr (r2, ledger1)"
    by (simp add: recomputeBalance_def Let_def ledger1_def current_def r2_def)
  have same: "r2 = \<lparr> rb_previous_balance = rb_current_balance r1,
                      rb_current_balance = rb_current_balance r1,
                      rb_difference = 0,
                      rb_was_updated = False \<rparr>"
    by (simp add: r1_def r2_def)
  have client: "refreshAccountBalance (\<lambda>i. Response_ok r2) accountId = Inr r2"
    by (simp add: refreshAccountBalance_def client_result_def)
  from first second same client
  show "\<exists>r1 ledger1 r2.
        recomputeBalance ledger accountId = Inr (r1, ledger1)
        \<and> recomputeBalance ledger1 accountId = Inr (r2, ledger1)
        \<and> r2 = \<lparr> rb_previous_balance = rb_current_balance r1,
                  rb_current_balance = rb_current_balance r1,
                  rb_difference = 0,
                  rb_was_updated = False \<rparr>
        \<and> refreshAccountBalance (\<lambda>i. Response_ok r2) accountId = Inr r2"
    by blast
qed

theorem recomputeBalance_witness:
  "(\<exists>r1 ledger1 r2.
      recomputeBalance
        \<lparr> lg_balances = [''a1'' \<mapsto> 10],
          lg_entries =
            [\<lparr> se_id = ''e1'', se_account = ''a1'', se_description = ''Pay'',
                se_signed_amount = 50, se_status = unmatched, se_counterpart = None \<rparr>,
             \<lparr> se_id = ''e2'', se_account = ''a1'', se_description = ''Food'',
                se_signed_amount = - 20, se_status = unmatched, se_counterpart = None \<rparr>] \<rparr>
        ''a1'' = Inr (r1, ledger1)
      \<and> r1 = \<lparr> rb_previous_balance = 10, rb_current_balance = 30,
                rb_difference = 20, rb_was_updated = True \<rparr>
      \<and> recomputeBalance ledger1 ''a1'' = Inr (r2, ledger1)
      \<and> r2 = \<lparr> rb_previous_balance = 30, rb_current_balance = 30,
                rb_difference = 0, rb_was_updated = False \<rparr>)"
proof -
  let ?ledger = "\<lparr> lg_balances = [''a1'' \<mapsto> 10::rat],
          lg_entries =
            [\<lparr> se_id = ''e1'', se_account = ''a1'', se_description = ''Pay'',
                se_signed_amount = 50, se_status = unmatched, se_counterpart = None \<rparr>,
             \<lparr> se_id = ''e2'', se_account = ''a1'', se_description = ''Food'',
                se_signed_amount = - 20, se_status = unmatched, se_counterpart = None \<rparr>] \<rparr>"
  have "lg_balances ?ledger ''a1'' \<noteq> None" by simp
  with recomputeBalance_idempotent [of ?ledger "''a1''"]
  obtain r1 ledger1 r2 where
    first: "recomputeBalance ?ledger ''a1'' = Inr (r1, ledger1)" and
    second: "recomputeBalance ledger1 ''a1'' = Inr (r2, ledger1)" and
    same: "r2 = \<lparr> rb_previous_balance = rb_current_balance r1,
                    rb_current_balance = rb_current_balance r1,
                    rb_difference = 0,
                    rb_was_updated = False \<rparr>"
    by blast
  from first have "r1 = \<lparr> rb_previous_balance = 10, rb_current_balance = 30,
                rb_difference = 20, rb_was_updated = True \<rparr>"
    by (simp add: recomputeBalance_def Let_def)
  with first second same show ?thesis by auto
qed

section \<open>Bulk reconciliation\<close>

lemma counterparts_added_iff:
  "c \<in> set (counterparts_added entries entryIds) \<longleftrightarrow>
     c \<notin> set entryIds \<and> (\<exists>e \<in> set entries. se_id e \<in> set entryIds \<and> se_counterpart e = Some c)"
  by (force simp add: counterparts_added_def List.map_filter_def image_iff)

text \<open>
  Claim C3. Whatever the stored entries, the id list and the action, bulk reconciliation
  returns a response (it never fails the batch) in which: every listed or added entry
  whose status is \<open>matched\<close> is reported in \<open>skipped_entries\<close> with the reason
  \<open>already_matched\<close> and is left as it was; the counterpart of a listed transfer entry
  that is not itself listed is in \<open>transfer_entries_included\<close>; every listed or added
  entry that is not matched gets the status of the action, so both sides of a pair do;
  the other entries are left as they were; \<open>total_requested\<close>, \<open>action_performed\<close>,
  \<open>skipped_count\<close> and \<open>updated_count\<close> report the id list, the action and the two
  groups; and the client function returns this response as it is.
\<close>

theorem bulkReconcile_skips_matched_and_pairs_transfers:
  "bulkReconcile entries entryIds action = (resp, entries') \<longrightarrow>
     (\<forall>e \<in> set entries.
        (se_id e \<in> set entryIds \<or> se_id e \<in> set (br_transfer_entries_included resp))
        \<and> se_status e = matched \<longrightarrow>
          \<lparr> sk_id = se_id e, sk_reason = ''already_matched'',
            sk_description = se_description e \<rparr> \<in> set (br_skipped_entries resp)
          \<and> e \<in> set entries')
     \<and> (\<forall>e \<in> set entries. \<forall>c.
          se_id e \<in> set entryIds \<and> se_counterpart e = Some c \<and> c \<notin> set entryIds \<longrightarrow>
            c \<in> set (br_transfer_entries_included resp))
     \<and> (\<forall>e \<in> set entries.
          (se_id e \<in> set entryIds \<or> se_id e \<in> set (br_transfer_entries_included resp))
          \<and> se_status e \<noteq> matched \<longrightarrow>
            e\<lparr>se_status := status_after action\<rparr> \<in> set entries')
     \<and> (\<forall>e \<in> set entries.
          se_id e \<notin> set entryIds \<and> se_id e \<notin> set (br_transfer_entries_included resp) \<longrightarrow>
            e \<in> set entries')
     \<and> br_total_requested resp = length entryIds
     \<and> br_action_performed resp = action
     \<and> br_skipped_count resp = length (br_skipped_entries resp)
     \<and> set (map sk_reason (br_skipped_entries resp)) \<subseteq> {''already_matched''}
     \<and> br_updated_count resp + br_skipped_count resp
         = length (filter (\<lambda>e. se_id e \<in> set entryIds
                                \<or> se_id e \<in> set (br_transfer_entries_included resp)) entries)
     \<and> bulkReconcileTransactions (\<lambda>ids a. Response_ok (fst (bulkReconcile entries ids a)))
          entryIds action = Inr resp"
proof
  assume run: "bulkReconcile entries entryIds action = (resp, entries')"
  define included where "included = counterparts_added entries entryIds"
  define target where
    "target = (\<lambda>e :: StoredEntry. se_id e \<in> set entryIds \<or> se_id e \<in> set included)"
  from run have resp: "resp =
      \<lparr> br_updated_count = length (filter (\<lambda>e. se_status e \<noteq> matched) (filter target entries)),
        br_skipped_count = length (filter (\<lambda>e. se_status e = matched) (filter target entries)),
        br_total_requested = length entryIds,
        br_transfer_entries_included = included,
        br_skipped_entries =
          map (\<lambda>e. \<lparr> sk_id = se_id e, sk_reason = ''already_matched'',
                       sk_description = se_description e \<rparr>)
              (filter (\<lambda>e. se_status e = matched) (filter target entries)),
        br_action_performed = action \<rparr>"
    and entries': "entries' =
      map (\<lambda>e. if target e \<and> se_status e \<noteq> matched
                then e\<lparr>se_status := status_after action\<rparr> else e) entries"
    by (auto simp add: bulkReconcile_def Let_def included_def [symmetric] target_def)
  have inc: "br_transfer_entries_included resp = included" by (simp add: resp)
  have skipped: "\<forall>e \<in> set entries.
        (se_id e \<in> set entryIds \<or> se_id e \<in> set (br_transfer_entries_included resp))
        \<and> se_status e = matched \<longrightarrow>
          \<lparr> sk_id = se_id e, sk_reason = ''already_matched'',
            sk_description = se_description e \<rparr> \<in> set (br_skipped_entries resp)
          \<and> e \<in> set entries'"
  proof (intro ballI impI)
    fix e
    assume e: "e \<in> set entries"
      and h: "(se_id e \<in> set entryIds \<or> se_id e \<in> set (br_transfer_entries_included resp))
        \<and> se_status e = matched"
    from h have t: "target e" and m: "se_status e = matched" by (simp_all add: inc target_def)
    from e t m have "e \<in> set (filter (\<lambda>e. se_status e = matched) (filter target entries))"
      by simp
    then have a: "\<lparr> sk_id = se_id e, sk_reason = ''already_matched'',
            sk_description = se_description e \<rparr> \<in> set (br_skipped_entries resp)"
      unfolding resp by (simp add: image_iff) blast
    from e m have "e \<in> set entries'" unfolding entries' by (force simp add: image_iff)
    with a show "\<lparr> sk_id = se_id e, sk_reason = ''already_matched'',
            sk_description = se_description e \<rparr> \<in> set (br_skipped_entries resp)
          \<and> e \<in> set entries'" by simp
  qed
  have pairs: "\<forall>e \<in> set entries. \<forall>c.
          se_id e \<in> set entryIds \<and> se_counterpart e = Some c \<and> c \<notin> set entryIds \<longrightarrow>
            c \<in> set (br_transfer_entries_included resp)"
    by (auto simp add: inc included_def counterparts_added_iff)
  have updated: "\<forall>e \<in> set entries.
          (se_id e \<in> set entryIds \<or> se_id e \<in> set (br_transfer_entries_included resp))
          \<and> se_status e \<noteq> matched \<longrightarrow>
            e\<lparr>se_status := status_after action\<rparr> \<in> set entries'"
  proof (intro ballI impI)
    fix e
    assume e: "e \<in> set entries"
      and h: "(se_id e \<in> set entryIds \<or> se_id e \<in> set (br_transfer_entries_included resp))
          \<and> se_status e \<noteq> matched"
    from h have "target e \<and> se_status e \<noteq> matched" by (simp add: inc target_def)
    with e show "e\<lparr>se_status := status_after action\<rparr> \<in> set entries'"
      unfolding entries' by (force simp add: image_iff)
  qed
  have others: "\<forall>e \<in> set entries.
          se_id e \<notin> set entryIds \<and> se_id e \<notin> set (br_transfer_entries_included resp) \<longrightarrow>
            e \<in> set entries'"
  proof (intro ballI impI)
    fix e
    assume e: "e \<in> set entries"
      and h: "se_id e \<notin> set entryIds \<and> se_id e \<notin> set (br_transfer_entries_included resp)"
    from h have "\<not> target e" by (simp add: inc target_def)
    with e show "e \<in> set entries'" unfolding entries' by (force simp add: image_iff)
  qed
  have counts: "br_total_requested resp = length entryIds"
    "br_action_performed resp = action"
    "br_skipped_count resp = length (br_skipped_entries resp)"
    "set (map sk_reason (br_skipped_entries resp)) \<subseteq> {''already_matched''}"
    by (auto simp add: resp)
  have "length (filter (\<lambda>e. se_status e \<noteq> matched) (filter target entries))
        + length (filter (\<lambda>e. se_status e = matched) (filter target entries))
      = length (filter target entries)"
    using sum_length_filter_compl [of "\<lambda>e. se_status e \<noteq> matched" "filter target entries"]
    by simp
  then have total: "br_updated_count resp + br_skipped_count resp
         = length (filter (\<lambda>e. se_id e \<in> set entryIds
                                \<or> se_id e \<in> set (br_transfer_entries_included resp)) entries)"
    by (simp add: resp target_def)
  have client: "bulkReconcileTransactions
          (\<lambda>ids a. Response_ok (fst (bulkReconcile entries ids a))) entryIds action = Inr resp"
    by (simp add: bulkReconcileTransactions_def client_result_def run)
  from skipped pairs updated others counts total client
  show "(\<forall>e \<in> set entries.
        (se_id e \<in> set entryIds \<or> se_id e \<in> set (br_transfer_entries_included resp))
        \<and> se_status e = matched \<longrightarrow>
          \<lparr> sk_id = se_id e, sk_reason = ''already_matched'',
            sk_description = se_description e \<rparr> \<in> set (br_skipped_entries resp)
          \<and> e \<in> set entries')
     \<and> (\<forall>e \<in> set entries. \<forall>c.
          se_id e \<in> set entryIds \<and> se_counterpart e = Some c \<and> c \<notin> set entryIds \<longrightarrow>
            c \<in> set (br_transfer_entries_included resp))
     \<and> (\<forall>e \<in> set entries.
          (se_id e \<in> set entryIds \<or> se_id e \<in> set (br_transfer_entries_included resp))
          \<and> se_status e \<noteq> matched \<longrightarrow>
            e\<lparr>se_status := status_after action\<rparr> \<in> set entries')
     \<and> (\<forall>e \<in> set entries.
          se_id e \<notin> set entryIds \<and> se_id e \<notin> set (br_transfer_entries_included resp) \<longrightarrow>
            e \<in> set entries')
     \<and> br_total_requested resp = length entryIds
     \<and> br_action_performed resp = action
     \<and> br_skipped_count resp = length (br_skipped_entries resp)
     \<and> set (map sk_reason (br_skipped_entries resp)) \<subseteq> {''already_matched''}
     \<and> br_updated_count resp + br_skipped_count resp
         = length (filter (\<lambda>e. se_id e \<in> set entryIds
                                \<or> se_id e \<in> set (br_transfer_entries_included resp)) entries)
     \<and> bulkReconcileTransactions (\<lambda>ids a. Response_ok (fst (bulkReconcile entries ids a)))
          entryIds action = Inr resp"
    by (intro conjI)
qed

theorem bulkReconcile_witness:
  "bulkReconcile
     [\<lparr> se_id = ''e1'', se_account = ''a1'', se_description = ''To savings'',
         se_signed_amount = - 10, se_status = unmatched, se_counterpart = Some ''e2'' \<rparr>,
      \<lparr> se_id = ''e2'', se_account = ''a2'', se_description = ''To savings'',
         se_signed_amount = 10, se_status = unmatched, se_counterpart = Some ''e1'' \<rparr>,
      \<lparr> se_id = ''e3'', se_account = ''a1'', se_description = ''Rent'',
         se_signed_amount = - 500, se_status = matched, se_counterpart = None \<rparr>]
     [''e1'', ''e3''] mark_cleared
   = (\<lparr> br_updated_count = 2, br_skipped_count = 1, br_total_requested = 2,
        br_transfer_entries_included = [''e2''],
        br_skipped_entries =
          [\<lparr> sk_id = ''e3'', sk_reason = ''already_matched'', sk_description = ''Rent'' \<rparr>],
        br_action_performed = mark_cleared \<rparr>,
      [\<lparr> se_id = ''e1'', se_account = ''a1'', se_description = ''To savings'',
          se_signed_amount = - 10, se_status = manually_cleared, se_counterpart = Some ''e2'' \<rparr>,
       \<lparr> se_id = ''e2'', se_account = ''a2'', se_description = ''To savings'',
          se_signed_amount = 10, se_status = manually_cleared, se_counterpart = Some ''e1'' \<rparr>,
       \<lparr> se_id = ''e3'', se_account = ''a1'', se_description = ''Rent'',
          se_signed_amount = - 500, se_status = matched, se_counterpart = None \<rparr>])
   \<and> ''e2'' \<in> set [''e2'']
   \<and> bulkReconcileTransactions
        (\<lambda>ids a. Response_ok (fst (bulkReconcile
           [\<lparr> se_id = ''e1'', se_account = ''a1'', se_description = ''To savings'',
               se_signed_amount = - 10, se_status = unmatched, se_counterpart = Some ''e2'' \<rparr>,
            \<lparr> se_id = ''e2'', se_account = ''a2'', se_description = ''To savings'',
               se_signed_amount = 10, se_status = unmatched, se_counterpart = Some ''e1'' \<rparr>,
            \<lparr> se_id = ''e3'', se_account = ''a1'', se_description = ''Rent'',
               se_signed_amount = - 500, se_status = matched, se_counterpart = None \<rparr>]
           ids a)))
        [''e1'', ''e3''] mark_cleared
      = Inr \<lparr> br_updated_count = 2, br_skipped_count = 1, br_total_requested = 2,
              br_transfer_entries_included = [''e2''],
              br_skipped_entries =
                [\<lparr> sk_id = ''e3'', sk_reason = ''already_matched'', sk_description = ''Rent'' \<rparr>],
              br_action_performed = mark_cleared \<rparr>"
proof -
  let ?entries = "[\<lparr> se_id = ''e1'', se_account = ''a1'', se_description = ''To savings'',
         se_signed_amount = - 10, se_status = unmatched, se_counterpart = Some ''e2'' \<rparr>,
      \<lparr> se_id = ''e2'', se_account = ''a2'', se_description = ''To savings'',
         se_signed_amount = 10, se_status = unmatched, se_counterpart = Some ''e1'' \<rparr>,
      \<lparr> se_id = ''e3'', se_account = ''a1'', se_description = ''Rent'',
         se_signed_amount = - 500, se_status = matched, se_counterpart = None \<rparr>]"
  let ?resp = "\<lparr> br_updated_count = 2, br_skipped_count = 1, br_total_requested = 2,
        br_transfer_entries_included = [''e2''],
        br_skipped_entries =
          [\<lparr> sk_id = ''e3'', sk_reason = ''already_matched'', sk_description = ''Rent'' \<rparr>],
        br_action_performed = mark_cleared \<rparr>"
  let ?after = "[\<lparr> se_id = ''e1'', se_account = ''a1'', se_description = ''To savings'',
          se_signed_amount = - 10, se_status = manually_cleared, se_counterpart = Some ''e2'' \<rparr>,
       \<lparr> se_id = ''e2'', se_account = ''a2'', se_description = ''To savings'',
          se_signed_amount = 10, se_status = manually_cleared, se_counterpart = Some ''e1'' \<rparr>,
       \<lparr> se_id = ''e3'', se_account = ''a1'', se_description = ''Rent'',
          se_signed_amount = - 500, se_status = matched, se_counterpart = None \<rparr>]"
  have run: "bulkReconcile ?entries [''e1'', ''e3''] mark_cleared = (?resp, ?after)"
    by (simp add: bulkReconcile_def counterparts_added_def List.map_filter_def status_after_def
          Let_def)
  from bulkReconcile_skips_matched_and_pairs_transfers
         [of ?entries "[''e1'', ''e3'']" mark_cleared ?resp ?after] run
  have "''e2'' \<in> set (br_transfer_entries_included ?resp)"
    and "bulkReconcileTransactions (\<lambda>ids a. Response_ok (fst (bulkReconcile ?entries ids a)))
          [''e1'', ''e3''] mark_cleared = Inr ?resp"
    by simp_all
  with run show ?thesis by simp
qed

section \<open>The order of the grouped categories\<close>

lemmas grouping_defs = groupedCategories_bulk_def groupedCategories_inline_def groupCategories_def
  groupName_bulk_def groupName_inline_def truthy_def push_into_def Object_prototype_keys_def
  typeOrder_def type_section_def Object_entries_def is_array_index_def is_digit_def
  Array_sort_def toLowerCase_def upper_case_def lower_case_def Let_def
lemma set_place_before: "set (place_before c x ys) = insert x (set ys)"
  by (induction ys) auto

lemma length_place_before: "length (place_before c x ys) = Suc (length ys)"
  by (induction ys) auto

lemma sorted_place_before:
  assumes total: "\<And>a b. c a b \<le> 0 \<or> c b a \<le> 0"
    and trans: "\<And>a b d. c a b \<le> 0 \<Longrightarrow> c b d \<le> 0 \<Longrightarrow> c a d \<le> 0"
  shows "sorted_wrt (\<lambda>a b. c a b \<le> 0) ys \<Longrightarrow> sorted_wrt (\<lambda>a b. c a b \<le> 0) (place_before c x ys)"
proof (induction ys)
  case Nil
  then show ?case by simp
next
  case (Cons y ys)
  show ?case
  proof (cases "c x y \<le> 0")
    case True
    have "\<forall>z \<in> set ys. c x z \<le> 0"
    proof
      fix z assume "z \<in> set ys"
      with Cons.prems have "c y z \<le> 0" by simp
      with True show "c x z \<le> 0" by (rule trans)
    qed
    with True Cons.prems show ?thesis by simp
  next
    case False
    with total [of x y] have yx: "c y x \<le> 0" by simp
    from Cons.prems have "sorted_wrt (\<lambda>a b. c a b \<le> 0) (place_before c x ys)"
      by (simp add: Cons.IH)
    moreover from Cons.prems yx have "\<forall>z \<in> set (place_before c x ys). c y z \<le> 0"
      by (simp add: set_place_before)
    ultimately show ?thesis using False by simp
  qed
qed

lemma sorted_Array_sort:
  assumes "\<And>a b. c a b \<le> 0 \<or> c b a \<le> 0"
    and "\<And>a b d. c a b \<le> 0 \<Longrightarrow> c b d \<le> 0 \<Longrightarrow> c a d \<le> 0"
  shows "sorted_wrt (\<lambda>a b. c a b \<le> 0) (Array_sort c xs)"
proof (induction xs)
  case Nil
  then show ?case by (simp add: Array_sort_def)
next
  case (Cons x xs)
  have "Array_sort c (x # xs) = place_before c x (Array_sort c xs)"
    by (simp add: Array_sort_def)
  with Cons sorted_place_before [of c "Array_sort c xs" x, OF assms] show ?case by simp
qed

lemma set_Array_sort: "set (Array_sort c xs) = set xs"
  by (induction xs) (simp_all add: Array_sort_def set_place_before)

lemma length_Array_sort: "length (Array_sort c xs) = length xs"
  by (induction xs) (simp_all add: Array_sort_def length_place_before)

lemma in_order_Array_sort:
  assumes "consistent cmp"
  shows "in_order cmp (map f (Array_sort (\<lambda>a b. cmp (f a) (f b)) xs))"
proof -
  from assms have total: "\<And>a b. cmp (f a) (f b) \<le> 0 \<or> cmp (f b) (f a) \<le> 0"
    and trans: "\<And>a b d. cmp (f a) (f b) \<le> 0 \<Longrightarrow> cmp (f b) (f d) \<le> 0 \<Longrightarrow> cmp (f a) (f d) \<le> 0"
    unfolding consistent_def by blast+
  have "sorted_wrt (\<lambda>a b. cmp (f a) (f b) \<le> 0) (Array_sort (\<lambda>a b. cmp (f a) (f b)) xs)"
    by (rule sorted_Array_sort) (fact total, fact trans)
  then show ?thesis by (simp add: in_order_def sorted_wrt_map)
qed

lemma length_Object_entries: "length (Object_entries obj) = length obj"
  using sum_length_filter_compl [of "\<lambda>kv. is_array_index (fst kv)" obj]
  by (simp add: Object_entries_def)

lemma set_Object_entries: "set (Object_entries obj) = set obj"
  by (auto simp add: Object_entries_def)

lemma type_section_cases:
  "type_section cmp ct (t, d) =
     (if ct t = [] then []
      else [\<lparr> ts_type = t, ts_displayName = d,
              ts_groups =
                map (\<lambda>entry. \<lparr> gs_name = fst entry,
                                gs_categories =
                                  Array_sort (\<lambda>a b. cmp (cat_name (gc_category a))
                                                      (cat_name (gc_category b))) (snd entry) \<rparr>)
                    (Array_sort (\<lambda>a b. cmp (fst a) (fst b)) (Object_entries (ct t))) \<rparr>])"
proof -
  have "length (Array_sort (\<lambda>a b. cmp (fst a) (fst b)) (Object_entries (ct t))) = length (ct t)"
    by (simp add: length_Array_sort length_Object_entries)
  then show ?thesis by (auto simp add: type_section_def Let_def)
qed

lemma type_section_ordered:
  assumes "consistent cmp" and "sec \<in> set (type_section cmp ct (t, d))"
  shows "in_order cmp (map gs_name (ts_groups sec))
     \<and> (\<forall>g \<in> set (ts_groups sec).
          in_order cmp (map (\<lambda>gc. cat_name (gc_category gc)) (gs_categories g)))"
proof -
  let ?groups = "Array_sort (\<lambda>a b. cmp (fst a) (fst b)) (Object_entries (ct t))"
  let ?mk = "\<lambda>entry. \<lparr> gs_name = fst entry,
                       gs_categories =
                         Array_sort (\<lambda>a b. cmp (cat_name (gc_category a))
                                             (cat_name (gc_category b))) (snd entry) \<rparr>"
  from assms(2) have sec: "ts_groups sec = map ?mk ?groups"
    by (auto simp add: type_section_cases split: if_splits)
  have "map gs_name (map ?mk ?groups) = map fst ?groups" by simp
  with in_order_Array_sort [OF assms(1), of fst "Object_entries (ct t)"]
  have names: "in_order cmp (map gs_name (ts_groups sec))" by (simp add: sec comp_def)
  have "\<forall>g \<in> set (ts_groups sec).
          in_order cmp (map (\<lambda>gc. cat_name (gc_category gc)) (gs_categories g))"
  proof
    fix g assume "g \<in> set (ts_groups sec)"
    then obtain entry where "g = ?mk entry" by (auto simp add: sec)
    with in_order_Array_sort [OF assms(1), of "\<lambda>gc. cat_name (gc_category gc)" "snd entry"]
    show "in_order cmp (map (\<lambda>gc. cat_name (gc_category gc)) (gs_categories g))" by simp
  qed
  with names show ?thesis by simp
qed

lemma push_into_nonempty: "push_into g x obj = Inr obj' \<Longrightarrow> obj' \<noteq> []"
  by (cases obj) (auto simp add: push_into_def split: option.splits if_splits)

lemma push_into_returns:
  "g \<notin> set Object_prototype_keys \<Longrightarrow> \<exists>obj'. push_into g x obj = Inr obj'"
  by (cases "map_of obj g") (simp_all add: push_into_def)

lemma organize_nonempty:
  "organize gname cs ct = Inr ct' \<Longrightarrow> (ct' t \<noteq> [] \<longleftrightarrow> ct t \<noteq> [] \<or> t \<in> cat_type ` set cs)"
proof (induction cs arbitrary: ct)
  case Nil
  then show ?case by simp
next
  case (Cons c cs)
  let ?x = "\<lparr> gc_category = c, gc_searchText = toLowerCase (cat_name c @ '' '' @ gname c) \<rparr>"
  from Cons.prems obtain obj where
    push: "push_into (gname c) ?x (ct (cat_type c)) = Inr obj" and
    rest: "organize gname cs (ct(cat_type c := obj)) = Inr ct'"
    by (auto simp add: Let_def split: sum.splits)
  from push have "obj \<noteq> []" by (rule push_into_nonempty)
  with Cons.IH [OF rest] show ?case by auto
qed

lemma organize_returns:
  "\<forall>c \<in> set cs. gname c \<notin> set Object_prototype_keys \<Longrightarrow> \<exists>ct'. organize gname cs ct = Inr ct'"
proof (induction cs arbitrary: ct)
  case Nil
  then show ?case by simp
next
  case (Cons c cs)
  let ?x = "\<lparr> gc_category = c, gc_searchText = toLowerCase (cat_name c @ '' '' @ gname c) \<rparr>"
  from Cons.prems have ok: "gname c \<notin> set Object_prototype_keys" by simp
  from push_into_returns [OF ok, of ?x "ct (cat_type c)"]
  obtain obj where push: "push_into (gname c) ?x (ct (cat_type c)) = Inr obj" ..
  from Cons.prems have "\<forall>c \<in> set cs. gname c \<notin> set Object_prototype_keys" by simp
  from Cons.IH [OF this, of "ct(cat_type c := obj)"]
  obtain ct' where "organize gname cs (ct(cat_type c := obj)) = Inr ct'" ..
  with push show ?case by (simp add: Let_def)
qed

lemma map_of_push_into:
  "push_into g x obj = Inr obj' \<Longrightarrow> map_of obj k = None \<Longrightarrow> k \<noteq> g \<Longrightarrow> map_of obj' k = None"
  by (auto simp add: push_into_def update_conv' split: option.splits if_splits)

lemma organize_throws:
  assumes "\<forall>t. \<forall>k \<in> set Object_prototype_keys. map_of (ct t) k = None"
    and "\<exists>c \<in> set cs. gname c \<in> set Object_prototype_keys"
  shows "organize gname cs ct = Inl TypeError"
  using assms
proof (induction cs arbitrary: ct)
  case Nil
  then show ?case by simp
next
  case (Cons c cs)
  let ?x = "\<lparr> gc_category = c, gc_searchText = toLowerCase (cat_name c @ '' '' @ gname c) \<rparr>"
  show ?case
  proof (cases "gname c \<in> set Object_prototype_keys")
    case True
    with Cons.prems(1) have "map_of (ct (cat_type c)) (gname c) = None" by blast
    with True have "push_into (gname c) ?x (ct (cat_type c)) = Inl TypeError"
      by (simp add: push_into_def)
    then show ?thesis by (simp add: Let_def)
  next
    case False
    from push_into_returns [OF False, of ?x "ct (cat_type c)"]
    obtain obj where push: "push_into (gname c) ?x (ct (cat_type c)) = Inr obj" ..
    have inv: "\<forall>t. \<forall>k \<in> set Object_prototype_keys. map_of ((ct(cat_type c := obj)) t) k = None"
    proof (intro allI ballI)
      fix t k assume k: "k \<in> set Object_prototype_keys"
      from k Cons.prems(1) have none: "map_of (ct (cat_type c)) k = None" by blast
      from k False have neq: "k \<noteq> gname c" by blast
      from push none neq have new: "map_of obj k = None" by (rule map_of_push_into)
      from k Cons.prems(1) have old: "map_of (ct t) k = None" by blast
      show "map_of ((ct(cat_type c := obj)) t) k = None"
      proof (cases "t = cat_type c")
        case True
        with new show ?thesis by simp
      next
        case False
        with old show ?thesis by simp
      qed
    qed
    from Cons.prems(2) obtain c' where c': "c' \<in> set (c # cs)" "gname c' \<in> set Object_prototype_keys"
      by blast
    with False have "c' \<in> set cs" by (cases "c' = c") simp_all
    with c'(2) have later: "\<exists>c \<in> set cs. gname c \<in> set Object_prototype_keys" by blast
    from Cons.IH [of "ct(cat_type c := obj)", OF inv later]
    have "organize gname cs (ct(cat_type c := obj)) = Inl TypeError" .
    with push show ?thesis by (simp add: Let_def)
  qed
qed

lemma groupCategories_throws_iff:
  "groupCategories gname cmp categories = Inl TypeError
     \<longleftrightarrow> (\<exists>c \<in> set categories. gname c \<in> set Object_prototype_keys)"
proof
  assume "groupCategories gname cmp categories = Inl TypeError"
  then have "\<not> (\<exists>ct'. organize gname categories (\<lambda>_. []) = Inr ct')"
    by (auto simp add: groupCategories_def)
  with organize_returns [of categories gname "\<lambda>_. []"]
  show "\<exists>c \<in> set categories. gname c \<in> set Object_prototype_keys" by blast
next
  assume "\<exists>c \<in> set categories. gname c \<in> set Object_prototype_keys"
  then have "organize gname categories (\<lambda>_. []) = Inl TypeError"
    by (intro organize_throws) simp_all
  then show "groupCategories gname cmp categories = Inl TypeError"
    by (simp add: groupCategories_def)
qed

lemma groupCategories_ordered:
  assumes cmp: "consistent cmp"
    and res: "groupCategories gname cmp categories = Inr result"
  shows "map ts_type result
           = filter (\<lambda>t. t \<in> cat_type ` set categories) [INCOME, EXPENSE, TRANSFER]"
    and "\<forall>sec \<in> set result.
           in_order cmp (map gs_name (ts_groups sec))
           \<and> (\<forall>g \<in> set (ts_groups sec).
                in_order cmp (map (\<lambda>gc. cat_name (gc_category gc)) (gs_categories g)))"
proof -
  from res obtain ct where org: "organize gname categories (\<lambda>_. []) = Inr ct"
    and result: "result = concat (map (type_section cmp ct) typeOrder)"
    by (auto simp add: groupCategories_def split: sum.splits)
  have ne: "\<And>t. ct t \<noteq> [] \<longleftrightarrow> t \<in> cat_type ` set categories"
    using organize_nonempty [OF org] by simp
  show "map ts_type result
           = filter (\<lambda>t. t \<in> cat_type ` set categories) [INCOME, EXPENSE, TRANSFER]"
    by (simp add: result typeOrder_def type_section_cases ne [symmetric])
  show "\<forall>sec \<in> set result.
           in_order cmp (map gs_name (ts_groups sec))
           \<and> (\<forall>g \<in> set (ts_groups sec).
                in_order cmp (map (\<lambda>gc. cat_name (gc_category gc)) (gs_categories g)))"
  proof
    fix sec assume "sec \<in> set result"
    then obtain t d where "sec \<in> set (type_section cmp ct (t, d))"
      by (auto simp add: result)
    with cmp show "in_order cmp (map gs_name (ts_groups sec))
           \<and> (\<forall>g \<in> set (ts_groups sec).
                in_order cmp (map (\<lambda>gc. cat_name (gc_category gc)) (gs_categories g)))"
      by (rule type_section_ordered)
  qed
qed

lemma organize_cong:
  "\<forall>c \<in> set cs. g1 c = g2 c \<Longrightarrow> organize g1 cs ct = organize g2 cs ct"
  by (induction cs arbitrary: ct) (auto simp add: Let_def split: sum.splits)

lemma editors_agree_when_group_name_present:
  assumes "\<forall>c \<in> set categories. groupName_bulk c = groupName_inline c"
  shows "groupedCategories_bulk cmp categories = groupedCategories_inline cmp categories"
  using organize_cong [OF assms]
  by (simp add: groupedCategories_bulk_def groupedCategories_inline_def groupCategories_def)

lemma byte_compare_consistent: "consistent byte_compare"
  by (auto simp add: consistent_def byte_compare_def)

text \<open>An example of the grouping, with the types, the group names and the category names.\<close>

lemma groupedCategories_bulk_example:
  "map_sum id
     (map (\<lambda>sec. (ts_type sec,
                   map (\<lambda>g. (gs_name g, map (\<lambda>gc. cat_name (gc_category gc)) (gs_categories g)))
                       (ts_groups sec))))
     (groupedCategories_bulk byte_compare
        [\<lparr> cat_id = ''c1'', cat_name = ''Rent'', cat_group = None,
            cat_group_name = Some ''Housing'', cat_type = EXPENSE \<rparr>,
         \<lparr> cat_id = ''c2'', cat_name = ''Salary'', cat_group = None,
            cat_group_name = Some ''Jobs'', cat_type = INCOME \<rparr>,
         \<lparr> cat_id = ''c3'', cat_name = ''Food'', cat_group = None,
            cat_group_name = Some ''Daily'', cat_type = EXPENSE \<rparr>,
         \<lparr> cat_id = ''c4'', cat_name = ''Bills'', cat_group = None,
            cat_group_name = Some ''Housing'', cat_type = EXPENSE \<rparr>])
   = Inr [(INCOME, [(''Jobs'', [''Salary''])]),
          (EXPENSE, [(''Daily'', [''Food'']), (''Housing'', [''Bills'', ''Rent''])])]"
  by (simp add: grouping_defs byte_compare_def)

text \<open>
  Claim C5, at a list for which the code gives no grouping. By \<open>groupCategories_ordered\<close> the result,
  when there is one, has its types in the order INCOME, EXPENSE, TRANSFER without the
  empty ones, its groups in the order of \<open>localeCompare\<close> on their names and the
  categories of each group in that order on their names. But by
  \<open>groupCategories_throws_iff\<close> there is no result when a group is named like a property
  of \<open>Object.prototype\<close>: for one category in a group named \<open>constructor\<close> the grouping
  of BulkCategoryEditor throws a TypeError.
\<close>

theorem group_named_constructor_throws:
  "groupedCategories_bulk localeCompare
     [\<lparr> cat_id = ''c1'', cat_name = ''Rent'', cat_group = None,
        cat_group_name = Some ''constructor'', cat_type = EXPENSE \<rparr>] = Inl TypeError"
  by (simp add: grouping_defs)

text \<open>
  Claim C6, at a list on which the two editors differ. By
  \<open>editors_agree_when_group_name_present\<close> the two groupings are equal on every list
  whose categories get the same group name from both. A category that has no
  \<open>group_name\<close> but a group object is put under the name of that object by
  BulkCategoryEditor and under \<open>Other\<close> by InlineCategoryEditor.
\<close>

theorem group_object_name_read_by_one_editor_only:
  "groupedCategories_bulk localeCompare
     [\<lparr> cat_id = ''c1'', cat_name = ''Salary'',
        cat_group = Some \<lparr> grp_id = ''g1'', grp_name = ''Jobs'', grp_type = INCOME \<rparr>,
        cat_group_name = None, cat_type = INCOME \<rparr>]
     = Inr [\<lparr> ts_type = INCOME, ts_displayName = ''Income'',
              ts_groups =
                [\<lparr> gs_name = ''Jobs'',
                    gs_categories =
                      [\<lparr> gc_category =
                            \<lparr> cat_id = ''c1'', cat_name = ''Salary'',
                              cat_group = Some \<lparr> grp_id = ''g1'', grp_name = ''Jobs'',
                                                 grp_type = INCOME \<rparr>,
                              cat_group_name = None, cat_type = INCOME \<rparr>,
                          gc_searchText = ''salary jobs'' \<rparr>] \<rparr>] \<rparr>]
   \<and> groupedCategories_inline localeCompare
     [\<lparr> cat_id = ''c1'', cat_name = ''Salary'',
        cat_group = Some \<lparr> grp_id = ''g1'', grp_name = ''Jobs'', grp_type = INCOME \<rparr>,
        cat_group_name = None, cat_type = INCOME \<rparr>]
     = Inr [\<lparr> ts_type = INCOME, ts_displayName = ''Income'',
              ts_groups =
                [\<lparr> gs_name = ''Other'',
                    gs_categories =
                      [\<lparr> gc_category =
                            \<lparr> cat_id = ''c1'', cat_name = ''Salary'',
                              cat_group = Some \<lparr> grp_id = ''g1'', grp_name = ''Jobs'',
                                                 grp_type = INCOME \<rparr>,
                              cat_group_name = None, cat_type = INCOME \<rparr>,
                          gc_searchText = ''salary other'' \<rparr>] \<rparr>] \<rparr>]
   \<and> groupedCategories_bulk localeCompare
     [\<lparr> cat_id = ''c1'', cat_name = ''Salary'',
        cat_group = Some \<lparr> grp_id = ''g1'', grp_name = ''Jobs'', grp_type = INCOME \<rparr>,
        cat_group_name = None, cat_type = INCOME \<rparr>]
     \<noteq> groupedCategories_inline localeCompare
     [\<lparr> cat_id = ''c1'', cat_name = ''Salary'',
        cat_group = Some \<lparr> grp_id = ''g1'', grp_name = ''Jobs'', grp_type = INCOME \<rparr>,
        cat_group_name = None, cat_type = INCOME \<rparr>]"
  by (simp add: grouping_defs)

end

